theory Spec2Isabelle
  imports Main
begin

section \<open>Shared folder-sync types (src/shared/folder-sync.types.ts)\<close>

text \<open>
  The TypeScript string-literal unions become datatypes, the interfaces become records.
  A JavaScript \<open>number\<close> that holds a size, a count or a millisecond value is an
  \<open>int\<close>; an optional field (\<open>f?: T\<close>) is a \<open>T option\<close>. Several interfaces
  share field names (\<open>ruleId\<close>, \<open>relativePath\<close>, \<open>pollIntervalMs\<close>, ...); a selector
  is then written with its record's name in front, as in \<open>FolderSyncConflict.ruleId c\<close>.
  The field \<open>id\<close> of a rule is written \<open>id'\<close>, since \<open>id\<close> is the identity function
  of HOL.
\<close>

datatype SyncDirection = Bidirectional | LocalToRemote | RemoteToLocal

datatype ConflictResolution = NewerWins | LocalWins | RemoteWins | KeepBoth

datatype FolderSyncRuleStatus = Idle | Syncing | Watching | Error | Paused

datatype LastSyncStatus = SyncSuccess | SyncError | SyncPartial

record FolderSyncRule =
  id' :: string
  profileId :: string
  bucket :: string
  bucketPrefix :: string
  localPath :: string
  direction :: SyncDirection
  enabled :: bool
  conflictResolution :: ConflictResolution
  pollIntervalMs :: int
  excludePatterns :: "string list"
  lastSyncAt :: "string option"
  lastSyncStatus :: "LastSyncStatus option"
  lastSyncError :: "string option"
  createdAt :: string

record Progress =
  completed :: int
  total :: int
  bytesTransferred :: int
  bytesTotal :: int

record FolderSyncState =
  ruleId :: string
  status :: FolderSyncRuleStatus
  filesWatching :: int
  lastChange :: "string option"
  currentFile :: "string option"
  progress :: "Progress option"

record FolderSyncFileRecord =
  relativePath :: string
  localMtime :: int
  localSize :: int
  remoteEtag :: string
  remoteLastModified :: string
  remoteSize :: int
  syncedAt :: string

datatype FolderSyncAction = Upload | Download | DeleteLocal | DeleteRemote | Conflict

record FolderSyncDiffEntry =
  relativePath :: string
  action :: FolderSyncAction
  reason :: string
  localSize :: "int option"
  localMtime :: "int option"
  remoteSize :: "int option"
  remoteLastModified :: "string option"
  remoteEtag :: "string option"

record FolderSyncDiff =
  uploads :: "FolderSyncDiffEntry list"
  downloads :: "FolderSyncDiffEntry list"
  deleteLocal :: "FolderSyncDiffEntry list"
  deleteRemote :: "FolderSyncDiffEntry list"
  conflicts :: "FolderSyncDiffEntry list"
  unchanged :: nat

record FolderSyncRuleInput =
  profileId :: string
  bucket :: string
  bucketPrefix :: string
  localPath :: string
  direction :: SyncDirection
  conflictResolution :: ConflictResolution
  pollIntervalMs :: "int option"
  excludePatterns :: "string list option"

record FolderSyncConflict =
  ruleId :: string
  relativePath :: string
  localSize :: int
  localMtime :: int
  remoteSize :: int
  remoteLastModified :: string
  remoteEtag :: string

record FolderSyncStatusEvent =
  ruleId :: string
  status :: FolderSyncRuleStatus
  lastChange :: "string option"
  filesWatching :: int
  currentFile :: "string option"
  progress :: "Progress option"

record FolderSyncConflictEvent =
  ruleId :: string
  relativePath :: string
  localSize :: int
  localMtime :: int
  remoteSize :: int
  remoteLastModified :: string

record FolderSyncErrorEvent =
  ruleId :: string
  error :: string

section \<open>The folder-sync store (stores/useFolderSyncStore.ts)\<close>

text \<open>
  The zustand store is a record; \<open>set\<close> returns the updated record. The two
  JavaScript \<open>Map\<close>s keyed by rule id are maps; the arrays are lists.
\<close>

definition MAX_CONFLICTS :: nat where
  "MAX_CONFLICTS = 200"

record FolderSyncStore =
  rules :: "FolderSyncRule list"
  statuses :: "string \<rightharpoonup> FolderSyncState"
  conflicts :: "FolderSyncConflict list"
  errors :: "string \<rightharpoonup> string"
  loading :: bool
  previewDiff :: "FolderSyncDiff option"
  previewRuleId :: "string option"
  folderSyncPanelOpen :: bool
  addRuleDialogOpen :: bool
  editingRule :: "FolderSyncRule option"

definition initialStore :: FolderSyncStore where
  "initialStore =
     \<lparr>rules = [], statuses = Map.empty, FolderSyncStore.conflicts = [], errors = Map.empty,
      loading = False, previewDiff = None, previewRuleId = None,
      folderSyncPanelOpen = False, addRuleDialogOpen = False, editingRule = None\<rparr>"

text \<open>The handler of \<open>folder-sync:status\<close>: the event's fields, stored under its rule id.\<close>

definition onStatus :: "FolderSyncStatusEvent \<Rightarrow> FolderSyncStore \<Rightarrow> FolderSyncStore" where
  "onStatus data state =
     state\<lparr>statuses := (statuses state)(FolderSyncStatusEvent.ruleId data \<mapsto>
        \<lparr>FolderSyncState.ruleId = FolderSyncStatusEvent.ruleId data,
         FolderSyncState.status = FolderSyncStatusEvent.status data,
         FolderSyncState.filesWatching = FolderSyncStatusEvent.filesWatching data,
         FolderSyncState.lastChange = FolderSyncStatusEvent.lastChange data,
         FolderSyncState.currentFile = FolderSyncStatusEvent.currentFile data,
         FolderSyncState.progress = FolderSyncStatusEvent.progress data\<rparr>)\<rparr>"

text \<open>
  The handler of \<open>folder-sync:conflict\<close>. The record it builds copies the six fields of
  the event and sets \<open>remoteEtag\<close> to the empty string; it is put in front of the
  records of every other (ruleId, relativePath) pair, and the list is cut to
  \<open>MAX_CONFLICTS\<close> records (\<open>slice(0, MAX_CONFLICTS)\<close>).
\<close>

definition conflictOfEvent :: "FolderSyncConflictEvent \<Rightarrow> FolderSyncConflict" where
  "conflictOfEvent data =
     \<lparr>FolderSyncConflict.ruleId = FolderSyncConflictEvent.ruleId data,
      FolderSyncConflict.relativePath = FolderSyncConflictEvent.relativePath data,
      FolderSyncConflict.localSize = FolderSyncConflictEvent.localSize data,
      FolderSyncConflict.localMtime = FolderSyncConflictEvent.localMtime data,
      FolderSyncConflict.remoteSize = FolderSyncConflictEvent.remoteSize data,
      FolderSyncConflict.remoteLastModified = FolderSyncConflictEvent.remoteLastModified data,
      FolderSyncConflict.remoteEtag = ''''\<rparr>"

definition onConflict :: "FolderSyncConflictEvent \<Rightarrow> FolderSyncStore \<Rightarrow> FolderSyncStore" where
  "onConflict data state =
     state\<lparr>FolderSyncStore.conflicts :=
       take MAX_CONFLICTS
         (conflictOfEvent data #
          filter (\<lambda>conflict.
              \<not> (FolderSyncConflict.ruleId conflict = FolderSyncConflictEvent.ruleId data \<and>
                 FolderSyncConflict.relativePath conflict =
                   FolderSyncConflictEvent.relativePath data))
            (FolderSyncStore.conflicts state))\<rparr>"

text \<open>The handler of \<open>folder-sync:error\<close>: the last error message of the rule.\<close>

definition onError :: "FolderSyncErrorEvent \<Rightarrow> FolderSyncStore \<Rightarrow> FolderSyncStore" where
  "onError data state =
     state\<lparr>errors := (errors state)(FolderSyncErrorEvent.ruleId data \<mapsto> error data)\<rparr>"

text \<open>
  The three events the backend pushes, and the dispatch to the handler \<open>init\<close>
  subscribed for each. A run of events is a left fold.
\<close>

datatype FolderSyncEvent =
    StatusEvent FolderSyncStatusEvent
  | ConflictEvent FolderSyncConflictEvent
  | ErrorEvent FolderSyncErrorEvent

fun handleEvent :: "FolderSyncEvent \<Rightarrow> FolderSyncStore \<Rightarrow> FolderSyncStore" where
  "handleEvent (StatusEvent data) state = onStatus data state"
| "handleEvent (ConflictEvent data) state = onConflict data state"
| "handleEvent (ErrorEvent data) state = onError data state"

definition handleEvents :: "FolderSyncEvent list \<Rightarrow> FolderSyncStore \<Rightarrow> FolderSyncStore" where
  "handleEvents evs state = foldl (\<lambda>s e. handleEvent e s) state evs"

text \<open>
  \<open>init\<close> subscribes the three handlers once: the module-level flag \<open>initialized\<close>
  makes every later call return at once. An event reaches the store only through a
  subscribed handler.
\<close>

record FolderSyncModule =
  initialized :: bool
  store :: FolderSyncStore

definition init :: "FolderSyncModule \<Rightarrow> FolderSyncModule" where
  "init m = (if initialized m then m else m\<lparr>initialized := True\<rparr>)"

definition dispatchEvent :: "FolderSyncEvent \<Rightarrow> FolderSyncModule \<Rightarrow> FolderSyncModule" where
  "dispatchEvent e m = (if initialized m then m\<lparr>store := handleEvent e (store m)\<rparr> else m)"

text \<open>
  An RPC call either resolves with a value or rejects, with an \<open>Error\<close> object (which
  has a message) or with any other value. A rejected call throws out of the \<open>async\<close>
  action before its \<open>set\<close>: the action returns the rejection and the store stays as
  it was.
\<close>

datatype Rejection = ErrorObject string | OtherValue

datatype 'a RpcResult = Resolved 'a | Rejected Rejection

text \<open>\<open>addRule\<close>: the rule the backend returns is appended.\<close>

definition addRule ::
  "FolderSyncRule RpcResult \<Rightarrow> FolderSyncRuleInput \<Rightarrow> FolderSyncStore
     \<Rightarrow> Rejection + FolderSyncStore \<times> FolderSyncRule" where
  "addRule rpc input state =
     (case rpc of
        Resolved rule \<Rightarrow> Inr (state\<lparr>rules := rules state @ [rule]\<rparr>, rule)
      | Rejected e \<Rightarrow> Inl e)"

text \<open>\<open>updateRule\<close>: the rule with the id of the returned one is replaced by it.\<close>

definition updateRule ::
  "FolderSyncRule RpcResult \<Rightarrow> FolderSyncRuleInput \<times> string \<Rightarrow> FolderSyncStore
     \<Rightarrow> Rejection + FolderSyncStore" where
  "updateRule rpc input state =
     (case rpc of
        Resolved updated \<Rightarrow>
          Inr (state\<lparr>rules := map (\<lambda>r. if id' r = id' updated then updated else r) (rules state),
                     editingRule := None\<rparr>)
      | Rejected e \<Rightarrow> Inl e)"

text \<open>
  \<open>removeRule\<close>: after the \<open>folder-sync:remove-rule\<close> call resolves, the rule, its
  conflict records, its error entry and its status entry are dropped.
\<close>

definition removeRule ::
  "unit RpcResult \<Rightarrow> string \<Rightarrow> FolderSyncStore \<Rightarrow> Rejection + FolderSyncStore" where
  "removeRule rpc i state =
     (case rpc of
        Resolved _ \<Rightarrow>
          Inr (state\<lparr>rules := filter (\<lambda>r. id' r \<noteq> i) (rules state),
                     FolderSyncStore.conflicts :=
                       filter (\<lambda>conflict. FolderSyncConflict.ruleId conflict \<noteq> i)
                         (FolderSyncStore.conflicts state),
                     errors := (errors state)(i := None),
                     statuses := (statuses state)(i := None)\<rparr>)
      | Rejected e \<Rightarrow> Inl e)"

text \<open>
  \<open>syncNow\<close>: the \<open>folder-sync:sync-now\<close> call and nothing else. The status of the
  rule is not looked at and the store is not written.
\<close>

definition syncNow ::
  "unit RpcResult \<Rightarrow> string \<Rightarrow> FolderSyncStore \<Rightarrow> Rejection + FolderSyncStore" where
  "syncNow rpc i state = (case rpc of Resolved _ \<Rightarrow> Inr state | Rejected e \<Rightarrow> Inl e)"

text \<open>\<open>getRuleStatus\<close>: the status of the rule's entry, idle when there is none.\<close>

definition getRuleStatus :: "FolderSyncStore \<Rightarrow> string \<Rightarrow> FolderSyncRuleStatus" where
  "getRuleStatus state ruleIdArg =
     (case statuses state ruleIdArg of
        Some st \<Rightarrow> FolderSyncState.status st
      | None \<Rightarrow> Idle)"

text \<open>
  \<open>clearConflicts(ruleId?)\<close>: the argument is tested for truthiness
  (\<open>ruleId ? ... : []\<close>), so a missing argument and the empty string both empty the list.
\<close>

definition truthy :: "string option \<Rightarrow> bool" where
  "truthy v = (case v of None \<Rightarrow> False | Some s \<Rightarrow> s \<noteq> '''')"

definition clearConflicts :: "string option \<Rightarrow> FolderSyncStore \<Rightarrow> FolderSyncStore" where
  "clearConflicts ruleIdArg state =
     state\<lparr>FolderSyncStore.conflicts :=
       (if truthy ruleIdArg
        then filter (\<lambda>conflict. FolderSyncConflict.ruleId conflict \<noteq> the ruleIdArg)
               (FolderSyncStore.conflicts state)
        else [])\<rparr>"

text \<open>The key a conflict event replaces records by: rule id and relative path.\<close>

definition conflictKey :: "FolderSyncConflict \<Rightarrow> string \<times> string" where
  "conflictKey c = (FolderSyncConflict.ruleId c, FolderSyncConflict.relativePath c)"

definition eventKey :: "FolderSyncConflictEvent \<Rightarrow> string \<times> string" where
  "eventKey d = (FolderSyncConflictEvent.ruleId d, FolderSyncConflictEvent.relativePath d)"

fun isConflictEvent :: "FolderSyncEvent \<Rightarrow> bool" where
  "isConflictEvent (ConflictEvent _) = True"
| "isConflictEvent _ = False"

text \<open>What every run of events keeps true of the conflict list.\<close>

definition conflictsInv :: "FolderSyncStore \<Rightarrow> bool" where
  "conflictsInv s \<longleftrightarrow>
     length (FolderSyncStore.conflicts s) \<le> MAX_CONFLICTS \<and>
     distinct (map conflictKey (FolderSyncStore.conflicts s))"

section \<open>The rule editor (components/sync/FolderSyncRuleEditor.tsx)\<close>

text \<open>
  The \<open>useState\<close> cells of the component are the fields of a record. The cells of the
  bucket list (\<open>buckets\<close>, \<open>loadingBuckets\<close>) only feed the bucket menu and are left
  out. Strings are lists of characters below 256; the line feed is character 10.
\<close>

record EditorState =
  profileId :: string
  bucket :: string
  bucketPrefix :: string
  localPath :: string
  direction :: SyncDirection
  conflictResolution :: ConflictResolution
  pollIntervalMs :: int
  excludePatterns :: string
  saving :: bool

definition LF :: char where
  "LF = CHR 0x0A"

text \<open>\<open>Array.prototype.join\<close> with a separator.\<close>

fun joinWith :: "string \<Rightarrow> string list \<Rightarrow> string" where
  "joinWith sep [] = ''''"
| "joinWith sep [x] = x"
| "joinWith sep (x # y # ys) = x @ sep @ joinWith sep (y # ys)"

text \<open>\<open>String.prototype.split\<close> at one character: the empty string gives one empty part.\<close>

fun splitAt :: "char \<Rightarrow> string \<Rightarrow> string list" where
  "splitAt c [] = [[]]"
| "splitAt c (x # xs) =
     (if x = c then [] # splitAt c xs
      else (case splitAt c xs of
              [] \<Rightarrow> [[x]]
            | part # parts \<Rightarrow> (x # part) # parts))"

text \<open>
  \<open>String.prototype.trim\<close>: white space and line terminators are dropped at both ends
  (among the characters below 256: tab, line feed, vertical tab, form feed, carriage
  return, space and no-break space).
\<close>

definition isWhiteSpace :: "char \<Rightarrow> bool" where
  "isWhiteSpace c \<longleftrightarrow>
     c \<in> set [CHR 0x09, CHR 0x0A, CHR 0x0B, CHR 0x0C, CHR 0x0D, CHR 0x20, CHR 0xA0]"

definition trim :: "string \<Rightarrow> string" where
  "trim s = rev (dropWhile isWhiteSpace (rev (dropWhile isWhiteSpace s)))"

definition defaultExcludePatterns :: string where
  "defaultExcludePatterns =
     ''.DS_Store'' @ [LF] @ ''Thumbs.db'' @ [LF] @ ''.object0-tmp'' @ [LF] @ ''desktop.ini''"

text \<open>The initial value of every cell: the edited rule's field, or the default.\<close>

definition initialEditorState :: "FolderSyncRule option \<Rightarrow> EditorState" where
  "initialEditorState editRule =
     \<lparr>EditorState.profileId =
        (case editRule of Some r \<Rightarrow> FolderSyncRule.profileId r | None \<Rightarrow> ''''),
      EditorState.bucket =
        (case editRule of Some r \<Rightarrow> FolderSyncRule.bucket r | None \<Rightarrow> ''''),
      EditorState.bucketPrefix =
        (case editRule of Some r \<Rightarrow> FolderSyncRule.bucketPrefix r | None \<Rightarrow> ''''),
      EditorState.localPath =
        (case editRule of Some r \<Rightarrow> FolderSyncRule.localPath r | None \<Rightarrow> ''''),
      EditorState.direction =
        (case editRule of Some r \<Rightarrow> FolderSyncRule.direction r | None \<Rightarrow> Bidirectional),
      EditorState.conflictResolution =
        (case editRule of Some r \<Rightarrow> FolderSyncRule.conflictResolution r | None \<Rightarrow> NewerWins),
      EditorState.pollIntervalMs =
        (case editRule of Some r \<Rightarrow> FolderSyncRule.pollIntervalMs r | None \<Rightarrow> 30000),
      EditorState.excludePatterns =
        (case editRule of
           Some r \<Rightarrow> joinWith [LF] (FolderSyncRule.excludePatterns r)
         | None \<Rightarrow> defaultExcludePatterns),
      saving = False\<rparr>"

text \<open>
  The options of the poll-interval menu. Its \<open>onChange\<close> stores
  \<open>Number(e.target.value)\<close>, the value of the option chosen.
\<close>

datatype PollOption = Seconds15 | Seconds30 | Minute1 | Minutes5 | Minutes10 | Minutes30

fun pollOptionValue :: "PollOption \<Rightarrow> int" where
  "pollOptionValue Seconds15 = 15000"
| "pollOptionValue Seconds30 = 30000"
| "pollOptionValue Minute1 = 60000"
| "pollOptionValue Minutes5 = 300000"
| "pollOptionValue Minutes10 = 600000"
| "pollOptionValue Minutes30 = 1800000"

definition pollChoices :: "int list" where
  "pollChoices = [15000, 30000, 60000, 300000, 600000, 1800000]"

text \<open>
  What the user can do to the form, and the setter calls of each \<open>onChange\<close>. Choosing
  a profile also empties the bucket; a picked folder is stored only when the path is
  truthy (neither \<open>null\<close> nor empty).
\<close>

datatype EditorEvent =
    ProfileChanged string
  | BucketChanged string
  | BucketPrefixChanged string
  | LocalPathChanged string
  | FolderPicked "string option"
  | DirectionChanged SyncDirection
  | ConflictResolutionChanged ConflictResolution
  | PollIntervalChanged PollOption
  | ExcludePatternsChanged string

fun applyEdit :: "EditorState \<Rightarrow> EditorEvent \<Rightarrow> EditorState" where
  "applyEdit st (ProfileChanged v) = st\<lparr>EditorState.profileId := v, EditorState.bucket := ''''\<rparr>"
| "applyEdit st (BucketChanged v) = st\<lparr>EditorState.bucket := v\<rparr>"
| "applyEdit st (BucketPrefixChanged v) = st\<lparr>EditorState.bucketPrefix := v\<rparr>"
| "applyEdit st (LocalPathChanged v) = st\<lparr>EditorState.localPath := v\<rparr>"
| "applyEdit st (FolderPicked path) =
     (if truthy path then st\<lparr>EditorState.localPath := the path\<rparr> else st)"
| "applyEdit st (DirectionChanged v) = st\<lparr>EditorState.direction := v\<rparr>"
| "applyEdit st (ConflictResolutionChanged v) = st\<lparr>EditorState.conflictResolution := v\<rparr>"
| "applyEdit st (PollIntervalChanged v) = st\<lparr>EditorState.pollIntervalMs := pollOptionValue v\<rparr>"
| "applyEdit st (ExcludePatternsChanged v) = st\<lparr>EditorState.excludePatterns := v\<rparr>"

fun isPollIntervalChange :: "EditorEvent \<Rightarrow> bool" where
  "isPollIntervalChange (PollIntervalChanged _) = True"
| "isPollIntervalChange _ = False"

text \<open>The rule input \<open>handleSave\<close> builds from the cells.\<close>

definition buildInput :: "EditorState \<Rightarrow> FolderSyncRuleInput" where
  "buildInput st =
     \<lparr>FolderSyncRuleInput.profileId = EditorState.profileId st,
      FolderSyncRuleInput.bucket = EditorState.bucket st,
      FolderSyncRuleInput.bucketPrefix = EditorState.bucketPrefix st,
      FolderSyncRuleInput.localPath = EditorState.localPath st,
      FolderSyncRuleInput.direction = EditorState.direction st,
      FolderSyncRuleInput.conflictResolution = EditorState.conflictResolution st,
      FolderSyncRuleInput.pollIntervalMs = Some (EditorState.pollIntervalMs st),
      FolderSyncRuleInput.excludePatterns =
        Some (filter (\<lambda>s. s \<noteq> '''')
               (map trim (splitAt LF (EditorState.excludePatterns st))))\<rparr>"

text \<open>
  \<open>handleSave\<close> returns what it did, in order, and the store as the call it issued
  left it. With an empty profile, bucket or local path it shows an error and returns.
  Otherwise it calls \<open>updateRule\<close> (when a rule is being edited) or \<open>addRule\<close>, shows
  a success toast and calls \<open>onDone\<close>; a rejected call shows the message of the
  \<open>Error\<close> thrown, or "Unknown error".
\<close>

datatype StoreCall =
    AddRuleCall FolderSyncRuleInput
  | UpdateRuleCall FolderSyncRuleInput string

datatype SaveEffect =
    ToastError string
  | ToastSuccess string
  | SetSaving bool
  | Call StoreCall
  | OnDone

fun errorMessage :: "Rejection \<Rightarrow> string" where
  "errorMessage (ErrorObject message) = message"
| "errorMessage OtherValue = ''Unknown error''"

definition handleSave ::
  "FolderSyncRule option \<Rightarrow> FolderSyncRule RpcResult \<Rightarrow> EditorState \<Rightarrow> FolderSyncStore
     \<Rightarrow> SaveEffect list \<times> FolderSyncStore" where
  "handleSave editRule rpc st state =
     (if EditorState.profileId st = '''' \<or> EditorState.bucket st = '''' \<or>
         EditorState.localPath st = ''''
      then ([ToastError ''Please fill in all required fields''], state)
      else
        (let input = buildInput st in
         case editRule of
           Some rule \<Rightarrow>
             (case updateRule rpc (input, id' rule) state of
                Inr state' \<Rightarrow>
                  ([SetSaving True, Call (UpdateRuleCall input (id' rule)),
                    ToastSuccess ''Sync rule updated'', OnDone, SetSaving False], state')
              | Inl err \<Rightarrow>
                  ([SetSaving True, Call (UpdateRuleCall input (id' rule)),
                    ToastError (errorMessage err), SetSaving False], state))
         | None \<Rightarrow>
             (case addRule rpc input state of
                Inr (state', _) \<Rightarrow>
                  ([SetSaving True, Call (AddRuleCall input),
                    ToastSuccess ''Sync rule created'', OnDone, SetSaving False], state')
              | Inl err \<Rightarrow>
                  ([SetSaving True, Call (AddRuleCall input),
                    ToastError (errorMessage err), SetSaving False], state))))"

fun callInput :: "StoreCall \<Rightarrow> FolderSyncRuleInput" where
  "callInput (AddRuleCall input) = input"
| "callInput (UpdateRuleCall input _) = input"

text \<open>The form as the user left it: the initial cells, then the edits in order.\<close>

definition editedState :: "FolderSyncRule option \<Rightarrow> EditorEvent list \<Rightarrow> EditorState" where
  "editedState editRule evs = foldl applyEdit (initialEditorState editRule) evs"

section \<open>The folder-sync panel (components/sync/FolderSyncPanel.tsx)\<close>

text \<open>
  The status the panel shows for a rule is that of the rule's entry in the store, idle
  when there is none; the "Sync" button of the rule is disabled exactly when that
  status is syncing.
\<close>

definition shownStatus :: "FolderSyncStore \<Rightarrow> FolderSyncRule \<Rightarrow> FolderSyncRuleStatus" where
  "shownStatus state rule =
     (case statuses state (id' rule) of
        Some st \<Rightarrow> FolderSyncState.status st
      | None \<Rightarrow> Idle)"

definition syncDisabled :: "FolderSyncStore \<Rightarrow> FolderSyncRule \<Rightarrow> bool" where
  "syncDisabled state rule \<longleftrightarrow> shownStatus state rule = Syncing"

text \<open>
  \<open>handleSyncNow\<close>, the handler of the button: it calls \<open>syncNow\<close> and shows a toast,
  "Sync triggered" or the error.
\<close>

datatype PanelEffect =
    SyncNowCall string
  | PanelToastSuccess string
  | PanelToastError string

definition handleSyncNow ::
  "unit RpcResult \<Rightarrow> string \<Rightarrow> FolderSyncStore \<Rightarrow> PanelEffect list \<times> FolderSyncStore" where
  "handleSyncNow rpc i state =
     (case syncNow rpc i state of
        Inr state' \<Rightarrow> ([SyncNowCall i, PanelToastSuccess ''Sync triggered''], state')
      | Inl err \<Rightarrow> ([SyncNowCall i, PanelToastError (errorMessage err)], state))"

fun isSyncNowCall :: "PanelEffect \<Rightarrow> bool" where
  "isSyncNowCall (SyncNowCall _) = True"
| "isSyncNowCall _ = False"

section \<open>The Differ (three-way reconciliation)\<close>

text \<open>
  The engine that computes a \<open>FolderSyncDiff\<close> runs in the backend process; the
  sources at hand hold its types only (\<open>FolderSyncFileRecord\<close>, \<open>FolderSyncAction\<close>,
  \<open>FolderSyncDiffEntry\<close>, \<open>FolderSyncDiff\<close> above). The definitions of this section
  follow section 4.1 of the specification, rule by rule.
\<close>

text \<open>
  Modelled from the spec: the entries of a snapshot (the snapshot collectors are not in
  the sources). A local entry has a size and a modification time, a remote entry a size,
  an etag and a last-modified stamp (sections 3 and 6). A snapshot and the baseline are
  association lists from relative path to entry, after exclusion filtering.
\<close>

record LocalEntry =
  size' :: int
  mtime :: int

record RemoteEntry =
  size' :: int
  etag :: string
  lastModified :: string

type_synonym Baseline = "(string \<times> FolderSyncFileRecord) list"

type_synonym LocalSnapshot = "(string \<times> LocalEntry) list"

type_synonym RemoteSnapshot = "(string \<times> RemoteEntry) list"

text \<open>
  Modelled from the spec: when a side counts as changed (the Differ is not in the
  sources). Rule 5 of section 4.1: local changed means "size/mtime differs from
  baseline".
\<close>

definition localChanged :: "FolderSyncFileRecord \<Rightarrow> LocalEntry \<Rightarrow> bool" where
  "localChanged b l \<longleftrightarrow>
     LocalEntry.size' l \<noteq> FolderSyncFileRecord.localSize b \<or>
     mtime l \<noteq> FolderSyncFileRecord.localMtime b"

text \<open>
  Modelled from the spec: when the remote side counts as changed (the Differ is not in
  the sources). Rule 5 names "etag/lastModified differs from baseline"; rule 6 and the
  examples of section 8 signal a remote change by the size alone, so the size recorded
  in the baseline is compared as well.
\<close>

definition remoteChanged :: "FolderSyncFileRecord \<Rightarrow> RemoteEntry \<Rightarrow> bool" where
  "remoteChanged b r \<longleftrightarrow>
     etag r \<noteq> FolderSyncFileRecord.remoteEtag b \<or>
     lastModified r \<noteq> FolderSyncFileRecord.remoteLastModified b \<or>
     RemoteEntry.size' r \<noteq> FolderSyncFileRecord.remoteSize b"

text \<open>
  Modelled from the spec: the classification of one relative path by rules 1 to 7 of
  section 4.1, before the direction is looked at (the Differ is not in the sources).
  \<open>None\<close> is "unchanged"; an action comes with its reason. Both sides are compared
  with the baseline record only, never with each other. Section 4.1 says nothing of a
  path that is on both sides without a baseline record, of a path deleted on one side
  and changed on the other, and of a baseline record with neither side left: there the
  answer is that of the parameter \<open>silent\<close>, so that what is proved holds whatever
  the engine does in these cases.
\<close>

type_synonym Classification = "(FolderSyncAction \<times> string) option"

type_synonym SilentCases =
  "FolderSyncFileRecord option \<Rightarrow> LocalEntry option \<Rightarrow> RemoteEntry option \<Rightarrow> Classification"

fun classify ::
  "SilentCases \<Rightarrow> FolderSyncFileRecord option \<Rightarrow> LocalEntry option \<Rightarrow> RemoteEntry option
     \<Rightarrow> Classification" where
  "classify silent None (Some l) None = Some (Upload, ''new local file'')"
| "classify silent None None (Some r) = Some (Download, ''new remote object'')"
| "classify silent (Some b) None (Some r) =
     (if \<not> remoteChanged b r then Some (DeleteRemote, ''local deletion propagates'')
      else silent (Some b) None (Some r))"
| "classify silent (Some b) (Some l) None =
     (if \<not> localChanged b l then Some (DeleteLocal, ''remote deletion propagates'')
      else silent (Some b) (Some l) None)"
| "classify silent (Some b) (Some l) (Some r) =
     (if localChanged b l \<and> \<not> remoteChanged b r then Some (Upload, ''local changed'')
      else if \<not> localChanged b l \<and> remoteChanged b r then Some (Download, ''remote changed'')
      else if localChanged b l \<and> remoteChanged b r
        then Some (Conflict, ''both sides changed since baseline'')
      else None)"
| "classify silent b l r = silent b l r"





text \<open>
  Modelled from the spec: which actions a direction allows (the Differ is not in the
  sources). Rules 1 and 3 of section 4.1: no upload and no remote deletion under
  remote-to-local; rules 2 and 4: no download and no local deletion under
  local-to-remote. No rule restricts a conflict.
\<close>

fun legal :: "SyncDirection \<Rightarrow> FolderSyncAction \<Rightarrow> bool" where
  "legal Bidirectional a = True"
| "legal LocalToRemote a = (a \<noteq> Download \<and> a \<noteq> DeleteLocal)"
| "legal RemoteToLocal a = (a \<noteq> Upload \<and> a \<noteq> DeleteRemote)"

text \<open>
  Modelled from the spec: "an action made illegal by direction is downgraded to
  unchanged rather than attempted" (the Differ is not in the sources).
\<close>

definition restrict :: "SyncDirection \<Rightarrow> Classification \<Rightarrow> Classification" where
  "restrict dir c =
     (case c of
        None \<Rightarrow> None
      | Some (a, why) \<Rightarrow> if legal dir a then Some (a, why) else None)"

text \<open>
  Modelled from the spec: the Diff before any path is looked at (the Differ is not in
  the sources). "A full Diff groups entries by action and counts unchanged paths"
  (section 3).
\<close>

definition emptyDiff :: FolderSyncDiff where
  "emptyDiff =
     \<lparr>uploads = [], downloads = [], deleteLocal = [], deleteRemote = [],
      FolderSyncDiff.conflicts = [], unchanged = 0\<rparr>"

text \<open>
  Modelled from the spec: an entry goes to the bucket of its action, after the entries
  already there (the Differ is not in the sources).
\<close>

definition addEntry :: "FolderSyncDiffEntry \<Rightarrow> FolderSyncDiff \<Rightarrow> FolderSyncDiff" where
  "addEntry e d =
     (case action e of
        Upload \<Rightarrow> d\<lparr>uploads := uploads d @ [e]\<rparr>
      | Download \<Rightarrow> d\<lparr>downloads := downloads d @ [e]\<rparr>
      | DeleteLocal \<Rightarrow> d\<lparr>deleteLocal := deleteLocal d @ [e]\<rparr>
      | DeleteRemote \<Rightarrow> d\<lparr>deleteRemote := deleteRemote d @ [e]\<rparr>
      | Conflict \<Rightarrow> d\<lparr>FolderSyncDiff.conflicts := FolderSyncDiff.conflicts d @ [e]\<rparr>)"

text \<open>
  Modelled from the spec: the paths the Differ goes through, "the union of the three
  sets" of section 4.1, each path once (the Differ is not in the sources).
\<close>

definition diffPaths :: "Baseline \<Rightarrow> LocalSnapshot \<Rightarrow> RemoteSnapshot \<Rightarrow> string list" where
  "diffPaths b l r = remdups (map fst b @ map fst l @ map fst r)"

text \<open>
  Modelled from the spec: the classification of a path, from what the baseline and the
  two snapshots hold for it (the Differ is not in the sources).
\<close>

definition classifyPath ::
  "SilentCases \<Rightarrow> Baseline \<Rightarrow> LocalSnapshot \<Rightarrow> RemoteSnapshot \<Rightarrow> string \<Rightarrow> Classification" where
  "classifyPath silent b l r p = classify silent (map_of b p) (map_of l p) (map_of r p)"

text \<open>
  Modelled from the spec: the entry of a path (the Differ is not in the sources): the
  path, the action and the reason, and of both sides what the snapshots hold for the
  path.
\<close>

definition diffEntry ::
  "string \<Rightarrow> FolderSyncAction \<Rightarrow> string \<Rightarrow> LocalEntry option \<Rightarrow> RemoteEntry option
     \<Rightarrow> FolderSyncDiffEntry" where
  "diffEntry p a why le re =
     \<lparr>FolderSyncDiffEntry.relativePath = p, action = a, reason = why,
      FolderSyncDiffEntry.localSize = map_option LocalEntry.size' le,
      FolderSyncDiffEntry.localMtime = map_option mtime le,
      FolderSyncDiffEntry.remoteSize = map_option RemoteEntry.size' re,
      FolderSyncDiffEntry.remoteLastModified = map_option lastModified re,
      FolderSyncDiffEntry.remoteEtag = map_option etag re\<rparr>"

text \<open>
  Modelled from the spec: one path is put into the Diff (the Differ is not in the
  sources). Its classification, restricted by the direction, is counted when it is
  "unchanged" and becomes an entry otherwise.
\<close>

definition diffStep ::
  "SilentCases \<Rightarrow> SyncDirection \<Rightarrow> Baseline \<Rightarrow> LocalSnapshot \<Rightarrow> RemoteSnapshot
     \<Rightarrow> FolderSyncDiff \<Rightarrow> string \<Rightarrow> FolderSyncDiff" where
  "diffStep silent dir b l r d p =
     (case restrict dir (classifyPath silent b l r p) of
        None \<Rightarrow> d\<lparr>unchanged := unchanged d + 1\<rparr>
      | Some (a, why) \<Rightarrow>
          addEntry (diffEntry p a why (map_of l p) (map_of r p)) d)"

text \<open>
  Modelled from the spec: the Differ of section 4.1 (not in the sources). Input: the
  baseline records, the local snapshot, the remote snapshot and the direction of the
  rule; output: a Diff.
\<close>

definition differ ::
  "SilentCases \<Rightarrow> SyncDirection \<Rightarrow> Baseline \<Rightarrow> LocalSnapshot \<Rightarrow> RemoteSnapshot
     \<Rightarrow> FolderSyncDiff" where
  "differ silent dir b l r = foldl (diffStep silent dir b l r) emptyDiff (diffPaths b l r)"

text \<open>All entries of a Diff, and the paths a direction keeps from being acted on.\<close>

definition diffEntries :: "FolderSyncDiff \<Rightarrow> FolderSyncDiffEntry list" where
  "diffEntries d =
     uploads d @ downloads d @ deleteLocal d @ deleteRemote d @ FolderSyncDiff.conflicts d"

definition countedUnchanged :: "SyncDirection \<Rightarrow> Classification \<Rightarrow> bool" where
  "countedUnchanged dir c = (case c of None \<Rightarrow> True | Some (a, why) \<Rightarrow> \<not> legal dir a)"

text \<open>Every bucket of a Diff holds entries of its own action only.\<close>

definition wellBucketed :: "FolderSyncDiff \<Rightarrow> bool" where
  "wellBucketed d \<longleftrightarrow>
     (\<forall>e \<in> set (uploads d). action e = Upload) \<and>
     (\<forall>e \<in> set (downloads d). action e = Download) \<and>
     (\<forall>e \<in> set (deleteLocal d). action e = DeleteLocal) \<and>
     (\<forall>e \<in> set (deleteRemote d). action e = DeleteRemote) \<and>
     (\<forall>e \<in> set (FolderSyncDiff.conflicts d). action e = Conflict)"

text \<open>The case section 4.1 is silent on, answered "unchanged": one engine among those covered.\<close>

definition silentUnchanged :: SilentCases where
  "silentUnchanged b l r = None"

text \<open>
  The example of section 8: baseline \<open>{f: size=10}\<close>, local \<open>{f: size=10}\<close>
  (unchanged), remote \<open>{f: size=20}\<close> (changed).
\<close>

definition exampleRecord :: FolderSyncFileRecord where
  "exampleRecord =
     \<lparr>FolderSyncFileRecord.relativePath = ''f'',
      FolderSyncFileRecord.localMtime = 1700000000000,
      FolderSyncFileRecord.localSize = 10,
      FolderSyncFileRecord.remoteEtag = ''etag-1'',
      FolderSyncFileRecord.remoteLastModified = ''2024-01-01T00:00:00.000Z'',
      FolderSyncFileRecord.remoteSize = 10,
      syncedAt = ''2024-01-01T00:00:05.000Z''\<rparr>"

definition exampleLocalEntry :: LocalEntry where
  "exampleLocalEntry = \<lparr>LocalEntry.size' = 10, mtime = 1700000000000\<rparr>"

definition exampleRemoteEntry :: RemoteEntry where
  "exampleRemoteEntry =
     \<lparr>RemoteEntry.size' = 20, etag = ''etag-1'', lastModified = ''2024-01-01T00:00:00.000Z''\<rparr>"

definition exampleBaseline :: Baseline where
  "exampleBaseline = [(''f'', exampleRecord)]"

definition exampleLocal :: LocalSnapshot where
  "exampleLocal = [(''f'', exampleLocalEntry)]"

definition exampleRemote :: RemoteSnapshot where
  "exampleRemote = [(''f'', exampleRemoteEntry)]"


text \<open>The same with a new local file \<open>h\<close> and a new remote object \<open>g\<close>.\<close>

definition busyLocal :: LocalSnapshot where
  "busyLocal = exampleLocal @ [(''h'', \<lparr>LocalEntry.size' = 5, mtime = 1700000002000\<rparr>)]"

definition busyRemote :: RemoteSnapshot where
  "busyRemote =
     exampleRemote @
     [(''g'', \<lparr>RemoteEntry.size' = 7, etag = ''etag-2'',
               lastModified = ''2024-01-03T00:00:00.000Z''\<rparr>)]"

section \<open>The Rule Scheduler (per-rule state machine)\<close>

text \<open>
  The scheduler runs in the backend process too; the sources at hand reach it through
  \<open>syncNow\<close>, which only issues the \<open>folder-sync:sync-now\<close> call, and show its
  status (\<open>FolderSyncRuleStatus\<close>). The definitions of this section follow sections
  4.3, 5 and 9 of the specification.
\<close>

text \<open>
  Modelled from the spec: the scheduler's state for one rule (the Rule Scheduler is not
  in the sources). The status and the outcome of the last sync are those of section 3.
  \<open>running\<close> says that a reconciliation has begun and has not ended yet; it outlives
  the status \<open>syncing\<close> when the rule is paused or removed meanwhile, since
  cancellation is cooperative and the operations already submitted are allowed to
  finish (section 5). \<open>cancelRequested\<close> is what the running reconciliation observes.
  \<open>rerunRequested\<close> is the flag of section 9 ("a boolean rerun-requested flag checked
  at the end of each reconciliation"), \<open>removed\<close> is the terminal state after
  \<open>remove rule\<close>. \<open>started\<close> counts the reconciliations begun, \<open>finished\<close> those
  that have reported their end; no transition but the one that begins a reconciliation
  adds to the first, none but the end of a running one to the second.
\<close>

record RuleScheduler =
  status :: FolderSyncRuleStatus
  running :: bool
  cancelRequested :: bool
  rerunRequested :: bool
  removed :: bool
  lastSyncStatus :: "LastSyncStatus option"
  lastSyncError :: "string option"
  started :: nat
  finished :: nat

text \<open>
  Modelled from the spec: the scheduler of a rule that has not been enabled yet is idle,
  with nothing started (the Rule Scheduler is not in the sources).
\<close>

definition initialScheduler :: RuleScheduler where
  "initialScheduler =
     \<lparr>RuleScheduler.status = Idle, running = False, cancelRequested = False,
      rerunRequested = False, removed = False,
      RuleScheduler.lastSyncStatus = None, RuleScheduler.lastSyncError = None,
      started = 0, finished = 0\<rparr>"

text \<open>
  Modelled from the spec: what reaches the scheduler of a rule (the Rule Scheduler is
  not in the sources): the commands of section 6, a trigger (a local-change
  notification, a poll timer fire or "sync now"), and the three ways a reconciliation
  reports its end in section 4.3. The end of a reconciliation is an event of its own:
  it arrives when the reconciliation has wound down, cancelled or not, and not when the
  scheduler asks for it.
\<close>

datatype SchedulerEvent =
    EnableRule
  | PauseRule
  | ResumeRule
  | Trigger
  | SyncSucceeded
  | SyncPartiallyFailed
  | SyncFailed string
  | RemoveRule

text \<open>
  Modelled from the spec: the number of reconciliations in flight, those begun and not
  yet ended (the Rule Scheduler is not in the sources).
\<close>

definition inFlight :: "RuleScheduler \<Rightarrow> nat" where
  "inFlight s = started s - finished s"

text \<open>
  Modelled from the spec: a reconciliation begins, the rule goes to syncing (the Rule
  Scheduler is not in the sources).
\<close>

definition beginSync :: "RuleScheduler \<Rightarrow> RuleScheduler" where
  "beginSync s =
     s\<lparr>RuleScheduler.status := Syncing, running := True, cancelRequested := False,
       rerunRequested := False, started := started s + 1\<rparr>"

text \<open>
  Modelled from the spec: the running reconciliation has ended (the Rule Scheduler is
  not in the sources).
\<close>

definition drained :: "RuleScheduler \<Rightarrow> RuleScheduler" where
  "drained s = s\<lparr>running := False, cancelRequested := False, finished := finished s + 1\<rparr>"

text \<open>
  Modelled from the spec: the scheduler learns that the running reconciliation has ended
  (the Rule Scheduler is not in the sources). With nothing running the report changes
  nothing. For a removed rule the end is only taken note of. For a rule that is still
  syncing the outcome is recorded (\<open>note\<close>) and the flag is checked "at the end of
  each reconciliation" (section 9): a requested re-run begins "immediately after the
  current one completes" (section 4.3), otherwise the rule goes to the status given.
  For a rule paused meanwhile the reconciliation was a cancelled one: its outcome is not
  recorded (the spec says nothing of it), the status stays, and a re-run requested since
  the rule was resumed begins now, the previous reconciliation having drained.
\<close>

definition endSync ::
  "FolderSyncRuleStatus \<Rightarrow> (RuleScheduler \<Rightarrow> RuleScheduler) \<Rightarrow> RuleScheduler \<Rightarrow> RuleScheduler" where
  "endSync next note s =
     (if \<not> running s then s
      else if removed s then drained s
      else if RuleScheduler.status s = Syncing
        then (if rerunRequested s then beginSync (note (drained s))
              else (note (drained s))\<lparr>RuleScheduler.status := next\<rparr>)
      else if rerunRequested s \<and>
              (RuleScheduler.status s = Watching \<or> RuleScheduler.status s = Error)
        then beginSync (drained s)
      else drained s)"

text \<open>
  Modelled from the spec: the transitions of section 4.3 (the Rule Scheduler is not in
  the sources). An event that section 4.3 gives no transition for in the current status
  changes nothing. A trigger is processed when the rule is watching, in error (a rule in
  error "still watches for the next trigger") or syncing: it begins a reconciliation
  "only if not already syncing for this rule", that is when none is running, and is
  otherwise coalesced into the flag; a paused or idle rule processes no trigger. Pausing
  or removing a rule whose reconciliation is running asks it to cancel and drops a
  requested re-run; the reconciliation stays in flight until it reports its end, and "a
  new reconciliation must not start until the previous one has fully drained" (section
  5).
\<close>

fun schedulerStep :: "RuleScheduler \<Rightarrow> SchedulerEvent \<Rightarrow> RuleScheduler" where
  "schedulerStep s EnableRule =
     (if removed s then s
      else if RuleScheduler.status s = Idle then s\<lparr>RuleScheduler.status := Watching\<rparr>
      else s)"
| "schedulerStep s PauseRule =
     (if removed s then s
      else s\<lparr>RuleScheduler.status := Paused, rerunRequested := False,
             cancelRequested := running s\<rparr>)"
| "schedulerStep s ResumeRule =
     (if removed s then s
      else if RuleScheduler.status s = Paused then s\<lparr>RuleScheduler.status := Watching\<rparr>
      else s)"
| "schedulerStep s Trigger =
     (if removed s then s
      else if RuleScheduler.status s = Syncing \<or> RuleScheduler.status s = Watching \<or>
              RuleScheduler.status s = Error
        then (if running s then s\<lparr>rerunRequested := True\<rparr> else beginSync s)
      else s)"
| "schedulerStep s SyncSucceeded =
     endSync Watching (\<lambda>s. s\<lparr>RuleScheduler.lastSyncStatus := Some SyncSuccess\<rparr>) s"
| "schedulerStep s SyncPartiallyFailed =
     endSync Watching (\<lambda>s. s\<lparr>RuleScheduler.lastSyncStatus := Some SyncPartial\<rparr>) s"
| "schedulerStep s (SyncFailed message) =
     endSync Error
       (\<lambda>s. s\<lparr>RuleScheduler.lastSyncStatus := Some SyncError,
               RuleScheduler.lastSyncError := Some message\<rparr>) s"
| "schedulerStep s RemoveRule =
     (if removed s then s
      else s\<lparr>RuleScheduler.status := Idle, rerunRequested := False, removed := True,
             cancelRequested := running s\<rparr>)"

text \<open>
  Modelled from the spec: the scheduler of a rule after the events that reached it, in
  order (the Rule Scheduler is not in the sources).
\<close>

definition runScheduler :: "SchedulerEvent list \<Rightarrow> RuleScheduler" where
  "runScheduler evs = foldl schedulerStep initialScheduler evs"

text \<open>What every run of the scheduler keeps true.\<close>

definition schedulerInv :: "RuleScheduler \<Rightarrow> bool" where
  "schedulerInv s \<longleftrightarrow>
     finished s \<le> started s \<and>
     inFlight s = (if running s then 1 else 0) \<and>
     (RuleScheduler.status s = Syncing \<longrightarrow> running s) \<and>
     (RuleScheduler.status s = Error \<longrightarrow> \<not> running s) \<and>
     (rerunRequested s \<longrightarrow>
        running s \<and> (RuleScheduler.status s = Syncing \<or> RuleScheduler.status s = Watching)) \<and>
     (removed s \<longrightarrow> RuleScheduler.status s = Idle)"

text \<open>The events that report the end of a reconciliation.\<close>

fun isCompletion :: "SchedulerEvent \<Rightarrow> bool" where
  "isCompletion SyncSucceeded = True"
| "isCompletion SyncPartiallyFailed = True"
| "isCompletion (SyncFailed message) = True"
| "isCompletion _ = False"

text \<open>
  A rule is enabled and triggered, paused while its reconciliation runs, resumed and
  triggered again before the cancelled reconciliation has reported its end.
\<close>

definition pausedMidSync :: "SchedulerEvent list" where
  "pausedMidSync = [EnableRule, Trigger, PauseRule, ResumeRule, Trigger]"

text \<open>
  Modelled from the spec: every \<open>folder-sync:sync-now\<close> call the panel issues reaches
  the scheduler of the rule as one trigger, "explicit sync now" in section 4.3 (the Rule
  Scheduler is not in the sources).
\<close>

definition triggersOf :: "PanelEffect list \<Rightarrow> SchedulerEvent list" where
  "triggersOf effects = map (\<lambda>e. Trigger) (filter isSyncNowCall effects)"

section \<open>Example data\<close>

text \<open>A burst of conflicts of one rule, each for a path of its own.\<close>

definition burstEvent :: "nat \<Rightarrow> FolderSyncConflictEvent" where
  "burstEvent n =
     \<lparr>FolderSyncConflictEvent.ruleId = ''rule-1'',
      FolderSyncConflictEvent.relativePath = replicate n (CHR ''a''),
      FolderSyncConflictEvent.localSize = 1,
      FolderSyncConflictEvent.localMtime = 2,
      FolderSyncConflictEvent.remoteSize = 3,
      FolderSyncConflictEvent.remoteLastModified = ''2024-01-01T00:00:00.000Z''\<rparr>"

definition exampleConflictEvent :: FolderSyncConflictEvent where
  "exampleConflictEvent =
     \<lparr>FolderSyncConflictEvent.ruleId = ''rule-1'',
      FolderSyncConflictEvent.relativePath = ''docs/report.txt'',
      FolderSyncConflictEvent.localSize = 15,
      FolderSyncConflictEvent.localMtime = 1700000000000,
      FolderSyncConflictEvent.remoteSize = 20,
      FolderSyncConflictEvent.remoteLastModified = ''2024-01-01T00:00:00.000Z''\<rparr>"

definition otherConflictEvent :: FolderSyncConflictEvent where
  "otherConflictEvent =
     \<lparr>FolderSyncConflictEvent.ruleId = ''rule-2'',
      FolderSyncConflictEvent.relativePath = ''notes.md'',
      FolderSyncConflictEvent.localSize = 7,
      FolderSyncConflictEvent.localMtime = 1700000001000,
      FolderSyncConflictEvent.remoteSize = 9,
      FolderSyncConflictEvent.remoteLastModified = ''2024-01-02T00:00:00.000Z''\<rparr>"

definition exampleConflict :: FolderSyncConflict where
  "exampleConflict = conflictOfEvent exampleConflictEvent"

definition otherConflict :: FolderSyncConflict where
  "otherConflict = conflictOfEvent otherConflictEvent"

definition exampleRule :: "string \<Rightarrow> int \<Rightarrow> FolderSyncRule" where
  "exampleRule i poll =
     \<lparr>id' = i, FolderSyncRule.profileId = ''profile-1'', FolderSyncRule.bucket = ''photos'',
      FolderSyncRule.bucketPrefix = '''', FolderSyncRule.localPath = ''/home/user/Photos'',
      FolderSyncRule.direction = Bidirectional, enabled = True,
      FolderSyncRule.conflictResolution = NewerWins, FolderSyncRule.pollIntervalMs = poll,
      FolderSyncRule.excludePatterns = [''.DS_Store''], lastSyncAt = None,
      FolderSyncRule.lastSyncStatus = None, FolderSyncRule.lastSyncError = None,
      createdAt = ''2024-01-01T00:00:00.000Z''\<rparr>"

definition exampleState :: "string \<Rightarrow> FolderSyncState" where
  "exampleState i =
     \<lparr>FolderSyncState.ruleId = i, FolderSyncState.status = Watching,
      FolderSyncState.filesWatching = 3, FolderSyncState.lastChange = None,
      FolderSyncState.currentFile = None, FolderSyncState.progress = None\<rparr>"

text \<open>A store with two rules, each with a conflict record, an error and a status.\<close>

definition exampleStore :: FolderSyncStore where
  "exampleStore =
     initialStore
       \<lparr>rules := [exampleRule ''rule-1'' 30000, exampleRule ''rule-2'' 60000],
        statuses := [''rule-1'' \<mapsto> exampleState ''rule-1'', ''rule-2'' \<mapsto> exampleState ''rule-2''],
        FolderSyncStore.conflicts := [exampleConflict, otherConflict],
        errors := [''rule-1'' \<mapsto> ''listing failed'', ''rule-2'' \<mapsto> ''disk full'']\<rparr>"

definition exampleStatusEvent :: FolderSyncStatusEvent where
  "exampleStatusEvent =
     \<lparr>FolderSyncStatusEvent.ruleId = ''rule-1'', FolderSyncStatusEvent.status = Syncing,
      FolderSyncStatusEvent.lastChange = None, FolderSyncStatusEvent.filesWatching = 3,
      FolderSyncStatusEvent.currentFile = Some ''docs/report.txt'',
      FolderSyncStatusEvent.progress = None\<rparr>"

definition exampleErrorEvent :: FolderSyncErrorEvent where
  "exampleErrorEvent = \<lparr>FolderSyncErrorEvent.ruleId = ''rule-2'', error = ''remote unreachable''\<rparr>"

text \<open>A run of events of all three kinds, and a run that ends with other events.\<close>

definition exampleEvents :: "FolderSyncEvent list" where
  "exampleEvents =
     [ConflictEvent exampleConflictEvent, StatusEvent exampleStatusEvent,
      ConflictEvent otherConflictEvent, ErrorEvent exampleErrorEvent]"

definition quietEvents :: "FolderSyncEvent list" where
  "quietEvents =
     [StatusEvent exampleStatusEvent, ConflictEvent (burstEvent 3), ErrorEvent exampleErrorEvent]"

text \<open>A form filled in for a new rule, with a poll interval chosen from the menu.\<close>

definition filledForm :: "EditorEvent list" where
  "filledForm =
     [ProfileChanged ''profile-1'', BucketChanged ''photos'',
      FolderPicked (Some ''/home/user/Photos''), PollIntervalChanged Minutes5]"

section \<open>Properties of the store\<close>

subsection \<open>Auxiliary facts\<close>

lemma conflictKey_conflictOfEvent: "conflictKey (conflictOfEvent d) = eventKey d"
  by (simp add: conflictKey_def eventKey_def conflictOfEvent_def)

lemma filter_other_key:
  "j \<noteq> i \<Longrightarrow> filter (\<lambda>x. f x \<noteq> i \<and> f x = j) xs = filter (\<lambda>x. f x = j) xs"
  by (induction xs) auto

lemma removeRule_resolved:
  "removeRule (Resolved u) i s =
     Inr (s\<lparr>rules := filter (\<lambda>r. id' r \<noteq> i) (rules s),
            FolderSyncStore.conflicts :=
              filter (\<lambda>c. FolderSyncConflict.ruleId c \<noteq> i) (FolderSyncStore.conflicts s),
            errors := (errors s)(i := None),
            statuses := (statuses s)(i := None)\<rparr>)"
  by (simp add: removeRule_def)

lemma handleEvents_Nil [simp]: "handleEvents [] s = s"
  by (simp add: handleEvents_def)

lemma handleEvents_Cons [simp]: "handleEvents (e # evs) s = handleEvents evs (handleEvent e s)"
  by (simp add: handleEvents_def)

lemma handleEvents_append: "handleEvents (xs @ ys) s = handleEvents ys (handleEvents xs s)"
  by (simp add: handleEvents_def)

text \<open>
  Before \<open>init\<close> no event reaches the store; after it, every event is handled once,
  however often \<open>init\<close> is called.
\<close>

lemma dispatchEvent_before_init: "\<not> initialized m \<Longrightarrow> dispatchEvent e m = m"
  by (simp add: dispatchEvent_def)

lemma init_idempotent: "init (init m) = init m"
  by (simp add: init_def)

lemma dispatchEvents_initialized:
  "initialized m \<Longrightarrow>
     store (foldl (\<lambda>m e. dispatchEvent e m) m evs) = handleEvents evs (store m)"
  by (induction evs arbitrary: m) (simp_all add: dispatchEvent_def)

lemma dispatchEvents_after_init:
  "store (foldl (\<lambda>m e. dispatchEvent e m) (init m) evs) = handleEvents evs (store m)"
proof -
  have "initialized (init m)" and "store (init m) = store m"
    by (simp_all add: init_def)
  then show ?thesis
    using dispatchEvents_initialized [of "init m" evs] by simp
qed

text \<open>The conflict list after a conflict event, by keys.\<close>

lemma conflicts_onConflict:
  "FolderSyncStore.conflicts (onConflict d s) =
     take MAX_CONFLICTS
       (conflictOfEvent d #
        filter (\<lambda>c. conflictKey c \<noteq> eventKey d) (FolderSyncStore.conflicts s))"
  by (simp add: onConflict_def conflictKey_def eventKey_def)

lemma onConflict_head:
  "\<exists>rest. FolderSyncStore.conflicts (onConflict d s) = conflictOfEvent d # rest"
  by (simp add: onConflict_def MAX_CONFLICTS_def)

lemma length_onConflict:
  "length (FolderSyncStore.conflicts (onConflict d s)) \<le> MAX_CONFLICTS"
  by (simp add: onConflict_def)

lemma length_conflicts_onConflict_le:
  "length (FolderSyncStore.conflicts (onConflict d s)) \<le> Suc (length (FolderSyncStore.conflicts s))"
proof -
  have "length (filter (\<lambda>c. conflictKey c \<noteq> eventKey d) (FolderSyncStore.conflicts s))
          \<le> length (FolderSyncStore.conflicts s)"
    by (rule length_filter_le)
  then show ?thesis
    unfolding conflicts_onConflict by (simp add: min.coboundedI1)
qed

lemma distinct_map_take: "distinct (map f xs) \<Longrightarrow> distinct (map f (take n xs))"
  by (metis distinct_take take_map)

lemma distinct_onConflict:
  assumes "distinct (map conflictKey (FolderSyncStore.conflicts s))"
  shows "distinct (map conflictKey (FolderSyncStore.conflicts (onConflict d s)))"
proof -
  let ?rest = "filter (\<lambda>c. conflictKey c \<noteq> eventKey d) (FolderSyncStore.conflicts s)"
  have "distinct (map conflictKey ?rest)"
    using assms by (simp add: distinct_map_filter)
  moreover have "conflictKey (conflictOfEvent d) \<notin> set (map conflictKey ?rest)"
    by (auto simp: conflictKey_conflictOfEvent)
  ultimately have "distinct (map conflictKey (conflictOfEvent d # ?rest))"
    by simp
  then show ?thesis
    unfolding conflicts_onConflict by (rule distinct_map_take)
qed

lemma conflicts_other_event:
  "\<not> isConflictEvent e \<Longrightarrow>
     FolderSyncStore.conflicts (handleEvent e s) = FolderSyncStore.conflicts s"
  by (cases e) (simp_all add: onStatus_def onError_def)

lemma conflicts_other_events:
  "\<forall>e \<in> set evs. \<not> isConflictEvent e \<Longrightarrow>
     FolderSyncStore.conflicts (handleEvents evs s) = FolderSyncStore.conflicts s"
  by (induction evs arbitrary: s) (simp_all add: conflicts_other_event)

lemma conflictsInv_handleEvent: "conflictsInv s \<Longrightarrow> conflictsInv (handleEvent e s)"
proof (cases "isConflictEvent e")
  case True
  assume inv: "conflictsInv s"
  from True obtain d where "e = ConflictEvent d" by (cases e) simp_all
  with inv show ?thesis
    by (simp add: conflictsInv_def length_onConflict distinct_onConflict)
next
  case False
  assume "conflictsInv s"
  with False show ?thesis
    by (simp add: conflictsInv_def conflicts_other_event)
qed

lemma conflictsInv_handleEvents: "conflictsInv s \<Longrightarrow> conflictsInv (handleEvents evs s)"
  by (induction evs arbitrary: s) (simp_all add: conflictsInv_handleEvent)

lemma conflictsInv_initialStore: "conflictsInv initialStore"
  by (simp add: conflictsInv_def initialStore_def)

lemma onConflict_keeps:
  assumes "c \<in> set (FolderSyncStore.conflicts s)"
    and "conflictKey c \<noteq> eventKey d"
    and "length (FolderSyncStore.conflicts s) < MAX_CONFLICTS"
  shows "c \<in> set (FolderSyncStore.conflicts (onConflict d s))"
proof -
  let ?rest = "filter (\<lambda>c. conflictKey c \<noteq> eventKey d) (FolderSyncStore.conflicts s)"
  have "length ?rest \<le> length (FolderSyncStore.conflicts s)"
    by (rule length_filter_le)
  with assms(3) have "Suc (length ?rest) \<le> MAX_CONFLICTS"
    by linarith
  then have "take MAX_CONFLICTS (conflictOfEvent d # ?rest) = conflictOfEvent d # ?rest"
    by simp
  moreover have "c \<in> set ?rest"
    using assms(1,2) by simp
  ultimately show ?thesis
    unfolding conflicts_onConflict by simp
qed

text \<open>
  A burst of conflict events with pairwise different keys, on an empty list: the records
  in reverse order of arrival, cut to the newest \<open>MAX_CONFLICTS\<close>.
\<close>

lemma conflicts_burst:
  assumes "FolderSyncStore.conflicts s = []"
    and "distinct (map eventKey ds)"
  shows "FolderSyncStore.conflicts (handleEvents (map ConflictEvent ds) s)
         = take MAX_CONFLICTS (rev (map conflictOfEvent ds))"
  using assms(2)
proof (induction ds rule: rev_induct)
  case Nil
  then show ?case by (simp add: assms(1))
next
  case (snoc d ds)
  let ?s = "handleEvents (map ConflictEvent ds) s"
  from snoc have IH: "FolderSyncStore.conflicts ?s = take MAX_CONFLICTS (rev (map conflictOfEvent ds))"
    and fresh: "eventKey d \<notin> set (map eventKey ds)"
    by simp_all
  have "\<forall>c \<in> set (rev (map conflictOfEvent ds)). conflictKey c \<noteq> eventKey d"
    using fresh by (auto simp: conflictKey_conflictOfEvent intro: rev_image_eqI)
  then have "\<forall>c \<in> set (FolderSyncStore.conflicts ?s). conflictKey c \<noteq> eventKey d"
    unfolding IH using set_take_subset by fast
  then have same: "filter (\<lambda>c. conflictKey c \<noteq> eventKey d) (FolderSyncStore.conflicts ?s)
                   = FolderSyncStore.conflicts ?s"
    by simp
  have "FolderSyncStore.conflicts (handleEvents (map ConflictEvent (ds @ [d])) s)
        = FolderSyncStore.conflicts (onConflict d ?s)"
    by (simp add: handleEvents_append)
  also have "\<dots> = take MAX_CONFLICTS (conflictOfEvent d # FolderSyncStore.conflicts ?s)"
    unfolding conflicts_onConflict same ..
  also have "\<dots> = take MAX_CONFLICTS (conflictOfEvent d # rev (map conflictOfEvent ds))"
    unfolding IH MAX_CONFLICTS_def by simp
  finally show ?case by simp
qed

lemma burstEvent_key_inj: "eventKey (burstEvent m) = eventKey (burstEvent n) \<Longrightarrow> m = n"
proof -
  assume "eventKey (burstEvent m) = eventKey (burstEvent n)"
  then have "replicate m (CHR ''a'') = replicate n (CHR ''a'')"
    by (simp add: eventKey_def burstEvent_def)
  then have "length (replicate m (CHR ''a'')) = length (replicate n (CHR ''a''))"
    by (rule arg_cong)
  then show "m = n" by simp
qed

lemma distinct_burst_keys: "distinct (map eventKey (map burstEvent [0..<n]))"
proof -
  have "inj (\<lambda>k. eventKey (burstEvent k))"
    by (rule injI) (rule burstEvent_key_inj)
  then have "distinct (map (\<lambda>k. eventKey (burstEvent k)) [0..<n])"
    by (simp add: distinct_map inj_on_def)
  then show ?thesis by (simp add: comp_def)
qed

lemma burst_evicts_first:
  "conflictOfEvent (burstEvent 0)
     \<notin> set (FolderSyncStore.conflicts
              (handleEvents (map ConflictEvent (map burstEvent [0..<Suc MAX_CONFLICTS]))
                 initialStore))"
proof -
  have empty: "FolderSyncStore.conflicts initialStore = []"
    by (simp add: initialStore_def)
  have split: "[0..<Suc MAX_CONFLICTS] = 0 # [Suc 0..<Suc MAX_CONFLICTS]"
    by (rule upt_conv_Cons) simp
  have len: "length (rev (map conflictOfEvent (map burstEvent [Suc 0..<Suc MAX_CONFLICTS])))
             = MAX_CONFLICTS"
    by simp
  have "take MAX_CONFLICTS (rev (map conflictOfEvent (map burstEvent [0..<Suc MAX_CONFLICTS])))
        = rev (map conflictOfEvent (map burstEvent [Suc 0..<Suc MAX_CONFLICTS]))"
    unfolding split using len by simp
  moreover have "conflictOfEvent (burstEvent 0)
        \<notin> set (rev (map conflictOfEvent (map burstEvent [Suc 0..<Suc MAX_CONFLICTS])))"
  proof
    assume "conflictOfEvent (burstEvent 0)
        \<in> set (rev (map conflictOfEvent (map burstEvent [Suc 0..<Suc MAX_CONFLICTS])))"
    then obtain k where k: "Suc 0 \<le> k"
      and eq: "conflictOfEvent (burstEvent k) = conflictOfEvent (burstEvent 0)"
      by auto
    from eq have "conflictKey (conflictOfEvent (burstEvent k))
        = conflictKey (conflictOfEvent (burstEvent 0))"
      by simp
    then have "k = 0"
      unfolding conflictKey_conflictOfEvent by (rule burstEvent_key_inj)
    with k show False by simp
  qed
  ultimately show ?thesis
    unfolding conflicts_burst [OF empty distinct_burst_keys] by simp
qed

subsection \<open>Removing a rule\<close>

text \<open>
  Claim C4. When the \<open>folder-sync:remove-rule\<close> call resolves, \<open>removeRule i\<close>
  completes, and the store it leaves holds no rule with id \<open>i\<close>, no conflict record of
  rule \<open>i\<close>, no error entry and no status entry under \<open>i\<close>; for every other rule id
  the rules, the conflict records, the error entry and the status entry are the same as
  before, and in the same order.
\<close>

theorem removeRule_purges_rule:
  "(\<exists>s'. removeRule (Resolved u) i s = Inr s')
   \<and> (removeRule rpc i s = Inr s' \<longrightarrow>
        (\<forall>r \<in> set (rules s'). id' r \<noteq> i)
      \<and> (\<forall>c \<in> set (FolderSyncStore.conflicts s'). FolderSyncConflict.ruleId c \<noteq> i)
      \<and> errors s' i = None
      \<and> statuses s' i = None
      \<and> (\<forall>j. j \<noteq> i \<longrightarrow>
            filter (\<lambda>r. id' r = j) (rules s') = filter (\<lambda>r. id' r = j) (rules s)
          \<and> filter (\<lambda>c. FolderSyncConflict.ruleId c = j) (FolderSyncStore.conflicts s')
              = filter (\<lambda>c. FolderSyncConflict.ruleId c = j) (FolderSyncStore.conflicts s)
          \<and> errors s' j = errors s j
          \<and> statuses s' j = statuses s j))"
proof (intro conjI impI)
  show "\<exists>s'. removeRule (Resolved u) i s = Inr s'"
    by (simp add: removeRule_resolved)
next
  assume ok: "removeRule rpc i s = Inr s'"
  then obtain v where "rpc = Resolved v"
    by (cases rpc) (simp_all add: removeRule_def)
  with ok have s': "s' = s\<lparr>rules := filter (\<lambda>r. id' r \<noteq> i) (rules s),
            FolderSyncStore.conflicts :=
              filter (\<lambda>c. FolderSyncConflict.ruleId c \<noteq> i) (FolderSyncStore.conflicts s),
            errors := (errors s)(i := None),
            statuses := (statuses s)(i := None)\<rparr>"
    by (simp add: removeRule_resolved)
  show "\<forall>r \<in> set (rules s'). id' r \<noteq> i"
    unfolding s' by simp
  show "\<forall>c \<in> set (FolderSyncStore.conflicts s'). FolderSyncConflict.ruleId c \<noteq> i"
    unfolding s' by simp
  show "errors s' i = None" and "statuses s' i = None"
    unfolding s' by simp_all
  show "\<forall>j. j \<noteq> i \<longrightarrow>
            filter (\<lambda>r. id' r = j) (rules s') = filter (\<lambda>r. id' r = j) (rules s)
          \<and> filter (\<lambda>c. FolderSyncConflict.ruleId c = j) (FolderSyncStore.conflicts s')
              = filter (\<lambda>c. FolderSyncConflict.ruleId c = j) (FolderSyncStore.conflicts s)
          \<and> errors s' j = errors s j
          \<and> statuses s' j = statuses s j"
    unfolding s' by (simp add: filter_other_key)
qed

theorem removeRule_purges_rule_witness:
  "\<exists>s'. removeRule (Resolved ()) ''rule-1'' exampleStore = Inr s'
     \<and> rules s' = [exampleRule ''rule-2'' 60000]
     \<and> FolderSyncStore.conflicts s' = [otherConflict]
     \<and> errors s' ''rule-1'' = None
     \<and> statuses s' ''rule-1'' = None
     \<and> errors s' ''rule-2'' = Some ''disk full''
     \<and> statuses s' ''rule-2'' = Some (exampleState ''rule-2'')"
proof -
  obtain s' where ok: "removeRule (Resolved ()) ''rule-1'' exampleStore = Inr s'"
    by (simp add: removeRule_resolved)
  note purged = removeRule_purges_rule [of "()" "''rule-1''" exampleStore "Resolved ()" s',
      THEN conjunct2, THEN mp, OF ok]
  have other: "''rule-2'' \<noteq> ''rule-1''"
    by simp
  note rest = purged [THEN conjunct2, THEN conjunct2]
  have gone: "errors s' ''rule-1'' = None" "statuses s' ''rule-1'' = None"
    by (rule rest [THEN conjunct1]) (rule rest [THEN conjunct2, THEN conjunct1])
  note others = rest [THEN conjunct2, THEN conjunct2, rule_format, OF other]
  have kept: "errors s' ''rule-2'' = errors exampleStore ''rule-2''"
      "statuses s' ''rule-2'' = statuses exampleStore ''rule-2''"
    by (rule others [THEN conjunct2, THEN conjunct2, THEN conjunct1])
      (rule others [THEN conjunct2, THEN conjunct2, THEN conjunct2])
  have r1: "id' (exampleRule ''rule-1'' 30000) = ''rule-1''"
    and r2: "id' (exampleRule ''rule-2'' 60000) = ''rule-2''"
    by (simp_all add: exampleRule_def)
  have c1: "FolderSyncConflict.ruleId exampleConflict = ''rule-1''"
    and c2: "FolderSyncConflict.ruleId otherConflict = ''rule-2''"
    by (simp_all add: exampleConflict_def otherConflict_def conflictOfEvent_def
        exampleConflictEvent_def otherConflictEvent_def)
  have rs: "rules exampleStore = [exampleRule ''rule-1'' 30000, exampleRule ''rule-2'' 60000]"
    and cs: "FolderSyncStore.conflicts exampleStore = [exampleConflict, otherConflict]"
    and es: "errors exampleStore ''rule-2'' = Some ''disk full''"
    and ss: "statuses exampleStore ''rule-2'' = Some (exampleState ''rule-2'')"
    by (simp_all add: exampleStore_def)
  from ok have "rules s' = filter (\<lambda>r. id' r \<noteq> ''rule-1'') (rules exampleStore)"
    and "FolderSyncStore.conflicts s'
      = filter (\<lambda>c. FolderSyncConflict.ruleId c \<noteq> ''rule-1'') (FolderSyncStore.conflicts exampleStore)"
    by (auto simp: removeRule_resolved)
  then have "rules s' = [exampleRule ''rule-2'' 60000]"
    and "FolderSyncStore.conflicts s' = [otherConflict]"
    unfolding rs cs by (simp_all add: r1 r2 c1 c2)
  with ok gone kept es ss show ?thesis
    by simp
qed

subsection \<open>Clearing conflict records\<close>

text \<open>
  Claim C5, as the code has it. For a non-empty rule id, \<open>clearConflicts\<close> removes
  exactly the conflict records of that rule: none of them is left, and the records of
  every other rule are the same as before, in the same order. Without an argument the
  list is emptied; so it is with the empty string as rule id, which the test
  \<open>ruleId ? ... : []\<close> takes for a missing argument.
\<close>

theorem clearConflicts_by_rule:
  "(ruleIdArg \<noteq> '''' \<longrightarrow>
      FolderSyncStore.conflicts (clearConflicts (Some ruleIdArg) s)
        = filter (\<lambda>c. FolderSyncConflict.ruleId c \<noteq> ruleIdArg) (FolderSyncStore.conflicts s)
    \<and> (\<forall>c \<in> set (FolderSyncStore.conflicts (clearConflicts (Some ruleIdArg) s)).
          FolderSyncConflict.ruleId c \<noteq> ruleIdArg)
    \<and> (\<forall>j. j \<noteq> ruleIdArg \<longrightarrow>
          filter (\<lambda>c. FolderSyncConflict.ruleId c = j)
            (FolderSyncStore.conflicts (clearConflicts (Some ruleIdArg) s))
          = filter (\<lambda>c. FolderSyncConflict.ruleId c = j) (FolderSyncStore.conflicts s)))
   \<and> FolderSyncStore.conflicts (clearConflicts None s) = []
   \<and> FolderSyncStore.conflicts (clearConflicts (Some '''') s) = []"
  by (simp add: clearConflicts_def truthy_def filter_other_key)

theorem clearConflicts_by_rule_witness:
  "''rule-1'' \<noteq> ''''
   \<and> FolderSyncStore.conflicts (clearConflicts (Some ''rule-1'') exampleStore) = [otherConflict]
   \<and> FolderSyncStore.conflicts (clearConflicts None exampleStore) = []"
proof -
  have nonempty: "''rule-1'' \<noteq> ''''"
    by simp
  have "filter (\<lambda>c. FolderSyncConflict.ruleId c \<noteq> ''rule-1'') (FolderSyncStore.conflicts exampleStore)
        = [otherConflict]"
    by (simp add: exampleStore_def exampleConflict_def otherConflict_def conflictOfEvent_def
        exampleConflictEvent_def otherConflictEvent_def)
  with clearConflicts_by_rule [of "''rule-1''" exampleStore] nonempty show ?thesis
    by simp
qed

text \<open>
  The claim as first stated fails for the empty string as rule id: the record of rule
  \<open>rule-1\<close> is removed by \<open>clearConflicts('''')\<close>.
\<close>

theorem clearConflicts_empty_id_clears_all:
  "FolderSyncConflict.ruleId exampleConflict \<noteq> ''''
   \<and> exampleConflict \<in> set (FolderSyncStore.conflicts exampleStore)
   \<and> exampleConflict \<notin> set (FolderSyncStore.conflicts (clearConflicts (Some '''') exampleStore))"
  by (simp add: clearConflicts_def truthy_def exampleStore_def exampleConflict_def
      conflictOfEvent_def exampleConflictEvent_def)

subsection \<open>How long a conflict record stays\<close>

text \<open>
  Claim C6, as the code has it. A conflict record of the store stays in the list across
  every run of incoming events in which no conflict event has the record's rule id and
  relative path and which brings no more conflict events than the list has room for up
  to 200 records. Status and error events never touch the list. Besides
  \<open>clearConflicts\<close> and \<open>removeRule\<close>, a record is removed by a later conflict event
  for the same rule and path (whose record replaces it) and by the cut to the newest 200
  records.
\<close>

theorem conflict_persists_under_events:
  assumes "c \<in> set (FolderSyncStore.conflicts s)"
    and "\<forall>d. ConflictEvent d \<in> set evs \<longrightarrow> eventKey d \<noteq> conflictKey c"
    and "length (FolderSyncStore.conflicts s) + length (filter isConflictEvent evs) \<le> 200"
  shows "c \<in> set (FolderSyncStore.conflicts (handleEvents evs s))"
  using assms
proof (induction evs arbitrary: s)
  case Nil
  then show ?case by simp
next
  case (Cons e evs)
  show ?case
  proof (cases e)
    case (ConflictEvent d)
    with Cons.prems have key: "conflictKey c \<noteq> eventKey d"
      and len: "length (FolderSyncStore.conflicts s) < MAX_CONFLICTS"
      by (auto simp: MAX_CONFLICTS_def)
    have "c \<in> set (FolderSyncStore.conflicts (onConflict d s))"
      by (rule onConflict_keeps [OF Cons.prems(1) key len])
    moreover have "length (FolderSyncStore.conflicts (onConflict d s))
        + length (filter isConflictEvent evs) \<le> 200"
      using Cons.prems(3) ConflictEvent length_conflicts_onConflict_le [of d s] by simp
    ultimately show ?thesis
      using Cons.IH [of "onConflict d s"] Cons.prems(2) ConflictEvent by simp
  next
    case (StatusEvent d)
    then have other: "\<not> isConflictEvent e" by simp
    have "FolderSyncStore.conflicts (handleEvent e s) = FolderSyncStore.conflicts s"
      by (rule conflicts_other_event [OF other])
    with Cons.prems other show ?thesis
      using Cons.IH [of "handleEvent e s"] by simp
  next
    case (ErrorEvent d)
    then have other: "\<not> isConflictEvent e" by simp
    have "FolderSyncStore.conflicts (handleEvent e s) = FolderSyncStore.conflicts s"
      by (rule conflicts_other_event [OF other])
    with Cons.prems other show ?thesis
      using Cons.IH [of "handleEvent e s"] by simp
  qed
qed

theorem conflict_persists_under_events_witness:
  "exampleConflict \<in> set (FolderSyncStore.conflicts exampleStore)
   \<and> length (FolderSyncStore.conflicts exampleStore) + length (filter isConflictEvent quietEvents) = 3
   \<and> exampleConflict \<in> set (FolderSyncStore.conflicts (handleEvents quietEvents exampleStore))"
proof -
  have present: "exampleConflict \<in> set (FolderSyncStore.conflicts exampleStore)"
    by (simp add: exampleStore_def)
  have keys: "\<forall>d. ConflictEvent d \<in> set quietEvents \<longrightarrow> eventKey d \<noteq> conflictKey exampleConflict"
    by (simp add: quietEvents_def eventKey_def conflictKey_def burstEvent_def exampleConflict_def
        conflictOfEvent_def exampleConflictEvent_def numeral_3_eq_3)
  have room: "length (FolderSyncStore.conflicts exampleStore)
      + length (filter isConflictEvent quietEvents) = 3"
    by (simp add: exampleStore_def quietEvents_def)
  then have "length (FolderSyncStore.conflicts exampleStore)
      + length (filter isConflictEvent quietEvents) \<le> 200"
    by simp
  from conflict_persists_under_events [OF present keys this] present room
  show ?thesis by simp
qed

text \<open>
  The claim as first stated fails: 201 conflict events for 201 different paths, and
  nothing else, remove the record of the first one.
\<close>

theorem conflict_evicted_by_cap:
  "conflictOfEvent (burstEvent 0)
     \<in> set (FolderSyncStore.conflicts
              (handleEvents (map ConflictEvent (map burstEvent [0..<1])) initialStore))
   \<and> conflictOfEvent (burstEvent 0)
     \<notin> set (FolderSyncStore.conflicts
              (handleEvents (map ConflictEvent (map burstEvent [0..<201])) initialStore))"
proof
  show "conflictOfEvent (burstEvent 0)
     \<in> set (FolderSyncStore.conflicts
              (handleEvents (map ConflictEvent (map burstEvent [0..<1])) initialStore))"
    by (simp add: onConflict_def initialStore_def MAX_CONFLICTS_def)
  have "(201::nat) = Suc MAX_CONFLICTS"
    by (simp add: MAX_CONFLICTS_def)
  then show "conflictOfEvent (burstEvent 0)
     \<notin> set (FolderSyncStore.conflicts
              (handleEvents (map ConflictEvent (map burstEvent [0..<201])) initialStore))"
    by (simp only: burst_evicts_first not_False_eq_True)
qed

subsection \<open>What a conflict record holds\<close>

text \<open>
  Claim C7, as the code has it. A conflict event carries the rule id, the relative path,
  the local size and modification time, and the remote size and last-modified stamp; it
  has no field for the remote etag. The record the store builds from an event is first in
  the list, copies these six fields, and has the empty string as its remote etag.
\<close>

theorem conflict_record_of_event:
  "(\<exists>rest. FolderSyncStore.conflicts (onConflict d s) = conflictOfEvent d # rest)
   \<and> FolderSyncConflict.ruleId (conflictOfEvent d) = FolderSyncConflictEvent.ruleId d
   \<and> FolderSyncConflict.relativePath (conflictOfEvent d) = FolderSyncConflictEvent.relativePath d
   \<and> FolderSyncConflict.localSize (conflictOfEvent d) = FolderSyncConflictEvent.localSize d
   \<and> FolderSyncConflict.localMtime (conflictOfEvent d) = FolderSyncConflictEvent.localMtime d
   \<and> FolderSyncConflict.remoteSize (conflictOfEvent d) = FolderSyncConflictEvent.remoteSize d
   \<and> FolderSyncConflict.remoteLastModified (conflictOfEvent d)
       = FolderSyncConflictEvent.remoteLastModified d
   \<and> FolderSyncConflict.remoteEtag (conflictOfEvent d) = ''''"
  using onConflict_head [of d s] by (simp add: conflictOfEvent_def)

theorem conflict_record_of_event_witness:
  "FolderSyncStore.conflicts (onConflict otherConflictEvent exampleStore)
     = [otherConflict, exampleConflict]
   \<and> FolderSyncConflict.remoteSize otherConflict = 9
   \<and> FolderSyncConflict.remoteEtag otherConflict = ''''"
proof -
  from conflict_record_of_event [of otherConflictEvent exampleStore]
  have "FolderSyncConflict.remoteEtag otherConflict = ''''"
    and "FolderSyncConflict.remoteSize otherConflict
          = FolderSyncConflictEvent.remoteSize otherConflictEvent"
    by (simp_all add: otherConflict_def)
  moreover have "FolderSyncStore.conflicts (onConflict otherConflictEvent exampleStore)
     = [otherConflict, exampleConflict]"
    by (simp add: onConflict_def MAX_CONFLICTS_def exampleStore_def exampleConflict_def
        otherConflict_def conflictOfEvent_def exampleConflictEvent_def otherConflictEvent_def)
  ultimately show ?thesis
    by (simp add: otherConflictEvent_def)
qed

text \<open>
  The claim as first stated fails: the record built from an event for a remote object
  has no etag in it.
\<close>

theorem conflict_record_etag_empty:
  "FolderSyncConflict.remoteEtag
     (hd (FolderSyncStore.conflicts (onConflict exampleConflictEvent initialStore))) = ''''"
  by (simp add: onConflict_def initialStore_def MAX_CONFLICTS_def conflictOfEvent_def)

subsection \<open>The conflict list after a run of events\<close>

text \<open>
  Claim C10. After any run of incoming events on the initial store, the conflict list
  holds at most 200 records and at most one record for each pair of rule id and relative
  path, and the record of the most recent conflict event is first in the list.
\<close>

theorem conflicts_bounded_unique_latest_first:
  "length (FolderSyncStore.conflicts (handleEvents evs initialStore)) \<le> 200
   \<and> distinct (map conflictKey (FolderSyncStore.conflicts (handleEvents evs initialStore)))
   \<and> (\<forall>before d after.
         evs = before @ ConflictEvent d # after \<and> (\<forall>e \<in> set after. \<not> isConflictEvent e) \<longrightarrow>
         (\<exists>rest. FolderSyncStore.conflicts (handleEvents evs initialStore)
                   = conflictOfEvent d # rest))"
proof -
  have inv: "conflictsInv (handleEvents evs initialStore)"
    by (rule conflictsInv_handleEvents [OF conflictsInv_initialStore])
  have latest: "\<exists>rest. FolderSyncStore.conflicts (handleEvents evs initialStore)
                   = conflictOfEvent d # rest"
    if "evs = before @ ConflictEvent d # after" and "\<forall>e \<in> set after. \<not> isConflictEvent e"
    for before d after
  proof -
    have "FolderSyncStore.conflicts (handleEvents evs initialStore)
          = FolderSyncStore.conflicts (onConflict d (handleEvents before initialStore))"
      using that by (simp add: handleEvents_append conflicts_other_events)
    then show ?thesis
      using onConflict_head [of d "handleEvents before initialStore"] by simp
  qed
  from inv have "length (FolderSyncStore.conflicts (handleEvents evs initialStore)) \<le> 200"
    and "distinct (map conflictKey (FolderSyncStore.conflicts (handleEvents evs initialStore)))"
    by (simp_all add: conflictsInv_def MAX_CONFLICTS_def)
  with latest show ?thesis by blast
qed

theorem conflicts_bounded_unique_latest_first_witness:
  "length (FolderSyncStore.conflicts (handleEvents exampleEvents initialStore)) \<le> 200
   \<and> distinct (map conflictKey (FolderSyncStore.conflicts (handleEvents exampleEvents initialStore)))
   \<and> (\<exists>rest. FolderSyncStore.conflicts (handleEvents exampleEvents initialStore)
                = conflictOfEvent otherConflictEvent # rest)"
proof -
  have shape: "exampleEvents
      = [ConflictEvent exampleConflictEvent, StatusEvent exampleStatusEvent]
        @ ConflictEvent otherConflictEvent # [ErrorEvent exampleErrorEvent]"
    by (simp add: exampleEvents_def)
  have quiet: "\<forall>e \<in> set [ErrorEvent exampleErrorEvent]. \<not> isConflictEvent e"
    by simp
  from conflicts_bounded_unique_latest_first [of exampleEvents] shape quiet
  show ?thesis by blast
qed

section \<open>Properties of the rule editor\<close>

subsection \<open>Auxiliary facts\<close>

lemma pollOptionValue_choice: "pollOptionValue v \<in> set pollChoices"
  by (cases v) (simp_all add: pollChoices_def)

lemma pollChoices_positive: "p \<in> set pollChoices \<Longrightarrow> 0 < p"
  by (auto simp: pollChoices_def)

lemma poll_foldl_untouched:
  "\<forall>e \<in> set evs. \<not> isPollIntervalChange e \<Longrightarrow>
     EditorState.pollIntervalMs (foldl applyEdit st evs) = EditorState.pollIntervalMs st"
proof (induction evs arbitrary: st)
  case Nil
  then show ?case by simp
next
  case (Cons e evs)
  then have "\<not> isPollIntervalChange e" by simp
  then have "EditorState.pollIntervalMs (applyEdit st e) = EditorState.pollIntervalMs st"
    by (cases e) simp_all
  with Cons show ?case by simp
qed

text \<open>The poll interval of the form is a menu value or the one the form started with.\<close>

lemma poll_foldl_applyEdit:
  "EditorState.pollIntervalMs (foldl applyEdit st evs) \<in> set pollChoices
   \<or> (EditorState.pollIntervalMs (foldl applyEdit st evs) = EditorState.pollIntervalMs st
      \<and> (\<forall>e \<in> set evs. \<not> isPollIntervalChange e))"
proof (induction evs arbitrary: st)
  case Nil
  then show ?case by simp
next
  case (Cons e evs)
  from Cons.IH [of "applyEdit st e"]
  consider (chosen) "EditorState.pollIntervalMs (foldl applyEdit (applyEdit st e) evs) \<in> set pollChoices"
    | (kept) "EditorState.pollIntervalMs (foldl applyEdit (applyEdit st e) evs)
          = EditorState.pollIntervalMs (applyEdit st e)"
        "\<forall>e \<in> set evs. \<not> isPollIntervalChange e"
    by blast
  then show ?case
  proof cases
    case chosen
    then show ?thesis by simp
  next
    case kept
    show ?thesis
    proof (cases "isPollIntervalChange e")
      case True
      then obtain v where "e = PollIntervalChanged v"
        by (cases e) simp_all
      with kept(1) show ?thesis
        by (simp add: pollOptionValue_choice)
    next
      case False
      then have "EditorState.pollIntervalMs (applyEdit st e) = EditorState.pollIntervalMs st"
        by (cases e) simp_all
      with kept False show ?thesis by simp
    qed
  qed
qed

lemma poll_initialEditorState:
  "EditorState.pollIntervalMs (initialEditorState editRule)
     = (case editRule of Some r \<Rightarrow> FolderSyncRule.pollIntervalMs r | None \<Rightarrow> 30000)"
  by (simp add: initialEditorState_def)

lemma handleSave_call_input:
  "Call c \<in> set (fst (handleSave editRule rpc st state)) \<Longrightarrow> callInput c = buildInput st"
  by (auto simp: handleSave_def Let_def split: if_splits option.splits sum.splits prod.splits)

lemma poll_buildInput:
  "FolderSyncRuleInput.pollIntervalMs (buildInput st) = Some (EditorState.pollIntervalMs st)"
  by (simp add: buildInput_def)

subsection \<open>The poll interval of a submitted rule input\<close>

text \<open>
  Claim C8, as the code has it. Every rule input the save handler submits carries a
  poll interval. It is one of the six menu values 15000, 30000, 60000, 300000, 600000
  and 1800000, or, when a rule is edited and the menu was not touched, the poll interval
  of the edited rule carried over as it is. For a new rule whose menu was not touched it
  is 30000. It is greater than 0 whenever the poll interval of the edited rule is.
\<close>

theorem handleSave_pollInterval:
  assumes "Call c \<in> set (fst (handleSave editRule rpc (editedState editRule evs) state))"
  shows "\<exists>p. FolderSyncRuleInput.pollIntervalMs (callInput c) = Some p
     \<and> (p \<in> set pollChoices
        \<or> (\<exists>r. editRule = Some r \<and> p = FolderSyncRule.pollIntervalMs r
              \<and> (\<forall>e \<in> set evs. \<not> isPollIntervalChange e)))
     \<and> (editRule = None \<and> (\<forall>e \<in> set evs. \<not> isPollIntervalChange e) \<longrightarrow> p = 30000)
     \<and> ((\<forall>r. editRule = Some r \<longrightarrow> 0 < FolderSyncRule.pollIntervalMs r) \<longrightarrow> 0 < p)"
proof -
  let ?p = "EditorState.pollIntervalMs (editedState editRule evs)"
  have sent: "FolderSyncRuleInput.pollIntervalMs (callInput c) = Some ?p"
    using handleSave_call_input [OF assms] by (simp add: poll_buildInput)
  have init: "30000 \<in> set pollChoices"
    by (simp add: pollChoices_def)
  from poll_foldl_applyEdit [of "initialEditorState editRule" evs]
  consider (chosen) "?p \<in> set pollChoices"
    | (kept) "?p = EditorState.pollIntervalMs (initialEditorState editRule)"
        "\<forall>e \<in> set evs. \<not> isPollIntervalChange e"
    unfolding editedState_def by blast
  then have origin: "?p \<in> set pollChoices
        \<or> (\<exists>r. editRule = Some r \<and> ?p = FolderSyncRule.pollIntervalMs r
              \<and> (\<forall>e \<in> set evs. \<not> isPollIntervalChange e))"
  proof cases
    case chosen
    then show ?thesis by simp
  next
    case kept
    then show ?thesis
      using init by (cases editRule) (simp_all add: poll_initialEditorState)
  qed
  have fresh: "?p = 30000" if "editRule = None" and "\<forall>e \<in> set evs. \<not> isPollIntervalChange e"
    unfolding editedState_def poll_foldl_untouched [OF that(2)]
    by (simp add: poll_initialEditorState that(1))
  have pos: "0 < ?p" if "\<forall>r. editRule = Some r \<longrightarrow> 0 < FolderSyncRule.pollIntervalMs r"
    using origin that pollChoices_positive by auto
  from sent origin fresh pos show ?thesis
    by blast
qed

theorem handleSave_pollInterval_witness:
  "Call (AddRuleCall (buildInput (editedState None filledForm)))
     \<in> set (fst (handleSave None (Resolved (exampleRule ''rule-3'' 300000))
                  (editedState None filledForm) exampleStore))
   \<and> FolderSyncRuleInput.pollIntervalMs (buildInput (editedState None filledForm)) = Some 300000
   \<and> (300000::int) \<in> set pollChoices"
proof -
  have st: "EditorState.profileId (editedState None filledForm) = ''profile-1''"
    "EditorState.bucket (editedState None filledForm) = ''photos''"
    "EditorState.localPath (editedState None filledForm) = ''/home/user/Photos''"
    "EditorState.pollIntervalMs (editedState None filledForm) = 300000"
    by (simp_all add: editedState_def filledForm_def initialEditorState_def truthy_def)
  have issued: "Call (AddRuleCall (buildInput (editedState None filledForm)))
     \<in> set (fst (handleSave None (Resolved (exampleRule ''rule-3'' 300000))
                  (editedState None filledForm) exampleStore))"
    by (simp add: handleSave_def st addRule_def Let_def)
  from handleSave_pollInterval [OF issued]
  obtain p where "FolderSyncRuleInput.pollIntervalMs
        (callInput (AddRuleCall (buildInput (editedState None filledForm)))) = Some p"
    and "0 < p \<or> p \<in> set pollChoices"
    by (auto simp: pollChoices_def)
  with issued st(4) show ?thesis
    by (simp add: poll_buildInput pollChoices_def)
qed

text \<open>
  The claim as first stated fails: a rule with a poll interval of 45000, saved from the
  editor with the menu left alone, is submitted with 45000, which is none of the six
  menu values.
\<close>

theorem handleSave_keeps_other_interval:
  "Call (UpdateRuleCall (buildInput (editedState (Some (exampleRule ''rule-1'' 45000)) [])) ''rule-1'')
     \<in> set (fst (handleSave (Some (exampleRule ''rule-1'' 45000))
                  (Resolved (exampleRule ''rule-1'' 45000))
                  (editedState (Some (exampleRule ''rule-1'' 45000)) []) exampleStore))
   \<and> FolderSyncRuleInput.pollIntervalMs
        (buildInput (editedState (Some (exampleRule ''rule-1'' 45000)) [])) = Some 45000
   \<and> (45000::int) \<notin> set pollChoices"
  by (simp add: handleSave_def editedState_def initialEditorState_def exampleRule_def
      updateRule_def Let_def buildInput_def pollChoices_def)

subsection \<open>Saving with a required field missing\<close>

text \<open>
  Claim C9. With an empty profile id, bucket or local path, the save handler shows the
  error "Please fill in all required fields" and does nothing else: it issues neither an
  add-rule nor an update-rule call, and the rules of the store are as they were.
\<close>

theorem handleSave_requires_fields:
  assumes "EditorState.profileId st = '''' \<or> EditorState.bucket st = '''' \<or>
           EditorState.localPath st = ''''"
  shows "handleSave editRule rpc st state
           = ([ToastError ''Please fill in all required fields''], state)
       \<and> (\<forall>c. Call c \<notin> set (fst (handleSave editRule rpc st state)))
       \<and> rules (snd (handleSave editRule rpc st state)) = rules state"
  using assms by (auto simp: handleSave_def)

theorem handleSave_requires_fields_witness:
  "EditorState.bucket (editedState None [ProfileChanged ''profile-1'']) = ''''
   \<and> handleSave None (Resolved (exampleRule ''rule-3'' 30000))
        (editedState None [ProfileChanged ''profile-1'']) exampleStore
      = ([ToastError ''Please fill in all required fields''], exampleStore)"
proof -
  have empty: "EditorState.bucket (editedState None [ProfileChanged ''profile-1'']) = ''''"
    by (simp add: editedState_def initialEditorState_def)
  then have "EditorState.profileId (editedState None [ProfileChanged ''profile-1'']) = '''' \<or>
      EditorState.bucket (editedState None [ProfileChanged ''profile-1'']) = '''' \<or>
      EditorState.localPath (editedState None [ProfileChanged ''profile-1'']) = ''''"
    by simp
  from handleSave_requires_fields [OF this, THEN conjunct1] empty
  show ?thesis by simp
qed

section \<open>Properties of the Differ\<close>

subsection \<open>Auxiliary facts\<close>

lemma restrict_Some_legal: "restrict dir c = Some (a, why) \<Longrightarrow> legal dir a"
  by (auto simp: restrict_def split: option.splits if_splits)

lemma restrict_None_iff: "restrict dir c = None \<longleftrightarrow> countedUnchanged dir c"
  by (auto simp: restrict_def countedUnchanged_def split: option.splits)

lemma action_diffEntry [simp]: "action (diffEntry p a why le re) = a"
  by (simp add: diffEntry_def)

lemma relativePath_diffEntry [simp]:
  "FolderSyncDiffEntry.relativePath (diffEntry p a why le re) = p"
  by (simp add: diffEntry_def)

lemma diffEntries_addEntry: "set (diffEntries (addEntry e d)) = insert e (set (diffEntries d))"
  by (cases "action e") (auto simp: addEntry_def diffEntries_def)

lemma unchanged_addEntry: "unchanged (addEntry e d) = unchanged d"
  by (cases "action e") (simp_all add: addEntry_def)

lemma wellBucketed_addEntry: "wellBucketed d \<Longrightarrow> wellBucketed (addEntry e d)"
  by (cases "action e") (auto simp: addEntry_def wellBucketed_def)

lemma diffStep_cases:
  obtains (kept) "restrict dir (classifyPath silent b l r p) = None"
      "diffStep silent dir b l r d p = d\<lparr>unchanged := unchanged d + 1\<rparr>"
      "countedUnchanged dir (classifyPath silent b l r p)"
    | (acted) a why where "restrict dir (classifyPath silent b l r p) = Some (a, why)"
      "diffStep silent dir b l r d p
         = addEntry (diffEntry p a why (map_of l p) (map_of r p)) d"
      "legal dir a" "\<not> countedUnchanged dir (classifyPath silent b l r p)"
proof (cases "restrict dir (classifyPath silent b l r p)")
  case None
  then show ?thesis
    using kept by (simp add: diffStep_def restrict_None_iff [symmetric])
next
  case (Some c)
  then obtain a why where c: "restrict dir (classifyPath silent b l r p) = Some (a, why)"
    by (cases c) simp
  then have "\<not> countedUnchanged dir (classifyPath silent b l r p)"
    by (simp add: restrict_None_iff [symmetric])
  with c show ?thesis
    using acted [of a why] by (simp add: diffStep_def restrict_Some_legal)
qed

lemma wellBucketed_diffStep:
  assumes "wellBucketed d"
  shows "wellBucketed (diffStep silent dir b l r d p)"
proof (cases rule: diffStep_cases [of dir silent b l r p d])
  case kept
  with assms show ?thesis
    by (simp add: wellBucketed_def)
next
  case (acted a why)
  show ?thesis
    unfolding acted(2) using assms by (rule wellBucketed_addEntry)
qed

lemma legal_diffStep:
  assumes "\<forall>e \<in> set (diffEntries d). legal dir (action e)"
  shows "\<forall>e \<in> set (diffEntries (diffStep silent dir b l r d p)). legal dir (action e)"
proof (cases rule: diffStep_cases [of dir silent b l r p d])
  case kept
  with assms show ?thesis
    by (simp add: diffEntries_def)
next
  case (acted a why)
  show ?thesis
    unfolding acted(2) diffEntries_addEntry using assms acted(3) by simp
qed

lemma unchanged_diffStep:
  "unchanged (diffStep silent dir b l r d p)
     = unchanged d + (if countedUnchanged dir (classifyPath silent b l r p) then 1 else 0)"
  by (cases rule: diffStep_cases [of dir silent b l r p d])
    (simp_all add: unchanged_addEntry)

lemma wellBucketed_foldl:
  "wellBucketed d \<Longrightarrow> wellBucketed (foldl (diffStep silent dir b l r) d ps)"
  by (induction ps arbitrary: d) (simp_all add: wellBucketed_diffStep)

lemma legal_foldl:
  "\<forall>e \<in> set (diffEntries d). legal dir (action e) \<Longrightarrow>
     \<forall>e \<in> set (diffEntries (foldl (diffStep silent dir b l r) d ps)). legal dir (action e)"
proof (induction ps arbitrary: d)
  case Nil
  then show ?case by simp
next
  case (Cons p ps)
  from Cons.prems have "\<forall>e \<in> set (diffEntries (diffStep silent dir b l r d p)). legal dir (action e)"
    by (rule legal_diffStep)
  then show ?case
    using Cons.IH by simp
qed

lemma unchanged_foldl:
  "unchanged (foldl (diffStep silent dir b l r) d ps)
     = unchanged d + length (filter (\<lambda>p. countedUnchanged dir (classifyPath silent b l r p)) ps)"
  by (induction ps arbitrary: d) (simp_all add: unchanged_diffStep)

lemma wellBucketed_differ: "wellBucketed (differ silent dir b l r)"
  unfolding differ_def by (rule wellBucketed_foldl) (simp add: wellBucketed_def emptyDiff_def)

lemma legal_differ: "\<forall>e \<in> set (diffEntries (differ silent dir b l r)). legal dir (action e)"
  unfolding differ_def by (rule legal_foldl) (simp add: diffEntries_def emptyDiff_def)

lemma unchanged_differ:
  "unchanged (differ silent dir b l r)
     = length (filter (\<lambda>p. countedUnchanged dir (classifyPath silent b l r p)) (diffPaths b l r))"
  unfolding differ_def by (simp add: unchanged_foldl emptyDiff_def)

lemma bucket_empty:
  assumes "\<forall>e \<in> set xs. action e = a" and "\<forall>e \<in> set xs. action e \<noteq> a"
  shows "xs = []"
  using assms by (cases xs) auto






lemma path_in_diffPaths: "map_of l p = Some x \<Longrightarrow> p \<in> set (diffPaths b l r)"
  by (auto simp: diffPaths_def dest: map_of_SomeD intro: rev_image_eqI)


lemma busy_differ:
  "differ silentUnchanged LocalToRemote exampleBaseline busyLocal busyRemote
     = emptyDiff\<lparr>uploads :=
          [diffEntry ''h'' Upload ''new local file''
             (Some \<lparr>LocalEntry.size' = 5, mtime = 1700000002000\<rparr>) None], unchanged := 2\<rparr>"
  by (simp add: differ_def diffPaths_def diffStep_def classifyPath_def restrict_def
      exampleBaseline_def exampleLocal_def exampleRemote_def exampleRecord_def
      exampleLocalEntry_def exampleRemoteEntry_def localChanged_def remoteChanged_def
      busyLocal_def busyRemote_def addEntry_def emptyDiff_def)

subsection \<open>Direction restriction\<close>

text \<open>
  Claim C1. Whatever the baseline and the snapshots hold, and whatever the engine does in
  the cases section 4.1 is silent on, the Diff of a local-to-remote rule has no download
  and no delete-local entry, in any bucket. For every direction, every entry of the Diff
  has an action the direction allows, and the unchanged count is the number of paths
  whose classification is "unchanged" or an action the direction does not allow: such
  an action is counted, not emitted.
\<close>

theorem differ_respects_direction:
  "(\<forall>e \<in> set (diffEntries (differ silent dir b l r)). legal dir (action e))
   \<and> unchanged (differ silent dir b l r)
       = length (filter (\<lambda>p. countedUnchanged dir (classifyPath silent b l r p)) (diffPaths b l r))
   \<and> downloads (differ silent LocalToRemote b l r) = []
   \<and> deleteLocal (differ silent LocalToRemote b l r) = []
   \<and> (\<forall>e \<in> set (diffEntries (differ silent LocalToRemote b l r)).
         action e \<noteq> Download \<and> action e \<noteq> DeleteLocal)"
proof -
  let ?d = "differ silent LocalToRemote b l r"
  have none: "\<forall>e \<in> set (diffEntries ?d). action e \<noteq> Download \<and> action e \<noteq> DeleteLocal"
    using legal_differ [of silent LocalToRemote b l r] by simp
  have wb: "wellBucketed ?d"
    by (rule wellBucketed_differ)
  have "downloads ?d = []"
  proof (rule bucket_empty [of _ Download])
    show "\<forall>e \<in> set (downloads ?d). action e = Download"
      using wb by (simp add: wellBucketed_def)
    show "\<forall>e \<in> set (downloads ?d). action e \<noteq> Download"
      using none by (simp add: diffEntries_def)
  qed
  moreover have "deleteLocal ?d = []"
  proof (rule bucket_empty [of _ DeleteLocal])
    show "\<forall>e \<in> set (deleteLocal ?d). action e = DeleteLocal"
      using wb by (simp add: wellBucketed_def)
    show "\<forall>e \<in> set (deleteLocal ?d). action e \<noteq> DeleteLocal"
      using none by (simp add: diffEntries_def)
  qed
  ultimately show ?thesis
    using none legal_differ [of silent dir b l r] unchanged_differ [of silent dir b l r]
    by blast
qed

theorem differ_respects_direction_witness:
  "downloads (differ silentUnchanged LocalToRemote exampleBaseline busyLocal busyRemote) = []
   \<and> deleteLocal (differ silentUnchanged LocalToRemote exampleBaseline busyLocal busyRemote) = []
   \<and> uploads (differ silentUnchanged LocalToRemote exampleBaseline busyLocal busyRemote)
       = [diffEntry ''h'' Upload ''new local file''
            (Some \<lparr>LocalEntry.size' = 5, mtime = 1700000002000\<rparr>) None]
   \<and> unchanged (differ silentUnchanged LocalToRemote exampleBaseline busyLocal busyRemote) = 2"
proof -
  note all = differ_respects_direction
    [of silentUnchanged LocalToRemote exampleBaseline busyLocal busyRemote]
  have "downloads (differ silentUnchanged LocalToRemote exampleBaseline busyLocal busyRemote) = []"
    by (rule all [THEN conjunct2, THEN conjunct2, THEN conjunct1])
  moreover
  have "deleteLocal (differ silentUnchanged LocalToRemote exampleBaseline busyLocal busyRemote) = []"
    by (rule all [THEN conjunct2, THEN conjunct2, THEN conjunct2, THEN conjunct1])
  ultimately show ?thesis
    by (simp add: busy_differ emptyDiff_def)
qed

subsection \<open>Three-way classification\<close>







section \<open>Properties of the panel\<close>

text \<open>
  A click on the "Sync" button issues one \<open>folder-sync:sync-now\<close> call whatever the
  status of the rule, and leaves the store as it is; two clicks are two triggers.
\<close>

lemma handleSyncNow_one_call:
  "filter isSyncNowCall (fst (handleSyncNow rpc i state)) = [SyncNowCall i]
   \<and> snd (handleSyncNow rpc i state) = state"
  by (cases rpc) (simp_all add: handleSyncNow_def syncNow_def)

lemma two_clicks_two_triggers:
  "triggersOf (fst (handleSyncNow rpc i state) @ fst (handleSyncNow rpc' i state'))
     = [Trigger, Trigger]"
  by (simp add: triggersOf_def handleSyncNow_one_call)

lemma syncDisabled_iff: "syncDisabled state rule \<longleftrightarrow> getRuleStatus state (id' rule) = Syncing"
  by (simp add: syncDisabled_def shownStatus_def getRuleStatus_def)

section \<open>Properties of the Rule Scheduler\<close>

subsection \<open>Auxiliary facts\<close>

lemma schedulerInv_initial: "schedulerInv initialScheduler"
  by (simp add: schedulerInv_def initialScheduler_def inFlight_def)

lemma schedulerInv_beginSync:
  assumes "schedulerInv s" and "\<not> running s" and "\<not> removed s"
  shows "schedulerInv (beginSync s)"
  using assms by (auto simp: schedulerInv_def beginSync_def inFlight_def)

lemma schedulerInv_endSync:
  assumes inv: "schedulerInv s"
    and nx: "nxt = Watching \<or> nxt = Error"
    and nt: "\<And>t. note t = t\<lparr>RuleScheduler.lastSyncStatus := RuleScheduler.lastSyncStatus (note t),
                              RuleScheduler.lastSyncError := RuleScheduler.lastSyncError (note t)\<rparr>"
  shows "schedulerInv (endSync nxt note s)"
proof (cases "running s")
  case False
  with inv show ?thesis by (simp add: endSync_def)
next
  case True
  show ?thesis
  proof (cases "removed s")
    case True
    with inv \<open>running s\<close> show ?thesis
      by (auto simp: endSync_def schedulerInv_def drained_def inFlight_def split: if_splits)
  next
    case False
    note live = this
    show ?thesis
    proof (cases "RuleScheduler.status s = Syncing")
      case True
      let ?n = "note (drained s)"
      have n: "?n = (drained s)\<lparr>RuleScheduler.lastSyncStatus := RuleScheduler.lastSyncStatus ?n,
                              RuleScheduler.lastSyncError := RuleScheduler.lastSyncError ?n\<rparr>"
        by (rule nt)
      show ?thesis
      proof (cases "rerunRequested s")
        case True
        have "schedulerInv (beginSync ?n)"
          apply (subst n)
          using inv \<open>running s\<close> live
          by (auto simp: schedulerInv_def beginSync_def drained_def inFlight_def split: if_splits)
        with True \<open>running s\<close> live \<open>RuleScheduler.status s = Syncing\<close> show ?thesis
          by (simp add: endSync_def)
      next
        case False
        have "schedulerInv (?n\<lparr>RuleScheduler.status := nxt\<rparr>)"
          apply (subst n)
          using inv \<open>running s\<close> live False nx
          by (auto simp: schedulerInv_def drained_def inFlight_def split: if_splits)
        with False \<open>running s\<close> live \<open>RuleScheduler.status s = Syncing\<close> show ?thesis
          by (simp add: endSync_def)
      qed
    next
      case False
      with inv \<open>running s\<close> live show ?thesis
        by (auto simp: endSync_def schedulerInv_def beginSync_def drained_def inFlight_def
            split: if_splits)
    qed
  qed
qed

lemma schedulerInv_step: "schedulerInv s \<Longrightarrow> schedulerInv (schedulerStep s e)"
proof (cases e)
  case Trigger
  assume inv: "schedulerInv s"
  show ?thesis
  proof (cases "\<not> removed s \<and> \<not> running s \<and>
      (RuleScheduler.status s = Syncing \<or> RuleScheduler.status s = Watching \<or>
       RuleScheduler.status s = Error)")
    case True
    with inv Trigger show ?thesis
      by (simp add: schedulerInv_beginSync)
  next
    case False
    with inv Trigger show ?thesis
      by (auto simp: schedulerInv_def inFlight_def)
  qed
next
  case SyncSucceeded
  assume "schedulerInv s"
  then show ?thesis
    unfolding SyncSucceeded schedulerStep.simps
    by (rule schedulerInv_endSync) simp_all
next
  case SyncPartiallyFailed
  assume "schedulerInv s"
  then show ?thesis
    unfolding SyncPartiallyFailed schedulerStep.simps
    by (rule schedulerInv_endSync) simp_all
next
  case (SyncFailed message)
  assume "schedulerInv s"
  then show ?thesis
    unfolding SyncFailed schedulerStep.simps
    by (rule schedulerInv_endSync) simp_all
qed (auto simp: schedulerInv_def inFlight_def)

lemma schedulerInv_foldl: "schedulerInv s \<Longrightarrow> schedulerInv (foldl schedulerStep s evs)"
  by (induction evs arbitrary: s) (simp_all add: schedulerInv_step)

lemma schedulerInv_run: "schedulerInv (runScheduler evs)"
  unfolding runScheduler_def by (rule schedulerInv_foldl [OF schedulerInv_initial])

lemma runScheduler_snoc: "runScheduler (evs @ [e]) = schedulerStep (runScheduler evs) e"
  by (simp add: runScheduler_def)

lemma trigger_while_running:
  assumes "schedulerInv s" and "running s"
  shows "started (schedulerStep s Trigger) = started s"
    and "finished (schedulerStep s Trigger) = finished s"
    and "running (schedulerStep s Trigger)"
    and "schedulerStep (schedulerStep s Trigger) Trigger = schedulerStep s Trigger"
  using assms by (auto simp: schedulerInv_def)

lemma trigger_coalesced:
  assumes "schedulerInv s" and "running s"
    and "RuleScheduler.status s = Syncing \<or> RuleScheduler.status s = Watching"
  shows "schedulerStep s Trigger = s\<lparr>rerunRequested := True\<rparr>"
  using assms by (auto simp: schedulerInv_def)

lemma completion_with_rerun:
  assumes "running s" and "\<not> removed s" and "rerunRequested s"
    and "RuleScheduler.status s = Syncing \<or> RuleScheduler.status s = Watching"
    and "isCompletion e"
  shows "RuleScheduler.status (schedulerStep s e) = Syncing
       \<and> started (schedulerStep s e) = started s + 1
       \<and> finished (schedulerStep s e) = finished s + 1
       \<and> \<not> rerunRequested (schedulerStep s e)"
  using assms by (cases e) (auto simp: endSync_def beginSync_def drained_def)

subsection \<open>Single flight\<close>

text \<open>
  Claim C3. After any run of events on the scheduler of a rule, at most one
  reconciliation is in flight: one is in flight exactly while a reconciliation that has
  begun has not reported its end, which is the case whenever the rule is syncing and also
  while a reconciliation cancelled by a pause is winding down. A trigger that arrives
  while a reconciliation is running starts nothing: the count of started reconciliations
  stays and one reconciliation stays in flight; a second such trigger changes nothing
  more. When the rule is syncing or watching, the trigger is kept as a requested re-run,
  and when the running reconciliation then ends, exactly one re-run starts and the
  request is cleared.
\<close>

theorem single_flight_per_rule:
  "inFlight (runScheduler evs) \<le> 1
   \<and> (inFlight (runScheduler evs) = 1 \<longleftrightarrow> running (runScheduler evs))
   \<and> (RuleScheduler.status (runScheduler evs) = Syncing \<longrightarrow> running (runScheduler evs))
   \<and> (running (runScheduler evs) \<longrightarrow>
         started (runScheduler (evs @ [Trigger])) = started (runScheduler evs)
       \<and> finished (runScheduler (evs @ [Trigger])) = finished (runScheduler evs)
       \<and> inFlight (runScheduler (evs @ [Trigger])) = 1
       \<and> runScheduler (evs @ [Trigger, Trigger]) = runScheduler (evs @ [Trigger]))
   \<and> (running (runScheduler evs)
        \<and> (RuleScheduler.status (runScheduler evs) = Syncing
           \<or> RuleScheduler.status (runScheduler evs) = Watching) \<longrightarrow>
         rerunRequested (runScheduler (evs @ [Trigger]))
       \<and> (isCompletion e \<longrightarrow>
            started (runScheduler (evs @ [Trigger, Trigger, e])) = started (runScheduler evs) + 1
          \<and> finished (runScheduler (evs @ [Trigger, Trigger, e])) = finished (runScheduler evs) + 1
          \<and> inFlight (runScheduler (evs @ [Trigger, Trigger, e])) = 1
          \<and> RuleScheduler.status (runScheduler (evs @ [Trigger, Trigger, e])) = Syncing
          \<and> \<not> rerunRequested (runScheduler (evs @ [Trigger, Trigger, e]))))"
proof -
  let ?s = "runScheduler evs"
  let ?s1 = "runScheduler (evs @ [Trigger])"
  let ?s2 = "runScheduler (evs @ [Trigger, Trigger])"
  let ?s3 = "runScheduler (evs @ [Trigger, Trigger, e])"
  have inv: "schedulerInv ?s" and inv1: "schedulerInv ?s1" and inv3: "schedulerInv ?s3"
    by (rule schedulerInv_run)+
  have s1: "?s1 = schedulerStep ?s Trigger"
    by (rule runScheduler_snoc)
  have s2: "?s2 = schedulerStep ?s1 Trigger"
    using runScheduler_snoc [of "evs @ [Trigger]" Trigger] by simp
  have s3: "?s3 = schedulerStep ?s2 e"
    using runScheduler_snoc [of "evs @ [Trigger, Trigger]" e] by simp
  have bound: "inFlight ?s \<le> 1" and exact: "inFlight ?s = 1 \<longleftrightarrow> running ?s"
    and syncing: "RuleScheduler.status ?s = Syncing \<longrightarrow> running ?s"
    using inv by (simp_all add: schedulerInv_def)
  have held: "started ?s1 = started ?s \<and> finished ?s1 = finished ?s \<and> inFlight ?s1 = 1
      \<and> ?s2 = ?s1" if run: "running ?s"
  proof -
    note t = trigger_while_running [OF inv run]
    have "running ?s1"
      unfolding s1 by (rule t(3))
    with inv1 have "inFlight ?s1 = 1"
      by (simp add: schedulerInv_def)
    moreover have "?s2 = ?s1"
      unfolding s2 unfolding s1 by (rule t(4))
    ultimately show ?thesis
      unfolding s1 using t(1,2) by simp
  qed
  have coalesced: "rerunRequested ?s1
       \<and> (isCompletion e \<longrightarrow>
            started ?s3 = started ?s + 1 \<and> finished ?s3 = finished ?s + 1 \<and> inFlight ?s3 = 1
          \<and> RuleScheduler.status ?s3 = Syncing \<and> \<not> rerunRequested ?s3)"
    if run: "running ?s"
      and st: "RuleScheduler.status ?s = Syncing \<or> RuleScheduler.status ?s = Watching"
  proof -
    have eq1: "?s1 = ?s\<lparr>rerunRequested := True\<rparr>"
      unfolding s1 by (rule trigger_coalesced [OF inv run st])
    have live: "\<not> removed ?s"
      using inv st by (auto simp: schedulerInv_def)
    have eq2: "?s2 = ?s1"
      using held [OF run] by simp
    have rerun: "rerunRequested ?s1"
      by (simp add: eq1)
    have after: "RuleScheduler.status ?s3 = Syncing \<and> started ?s3 = started ?s + 1
        \<and> finished ?s3 = finished ?s + 1 \<and> \<not> rerunRequested ?s3" if fin: "isCompletion e"
    proof -
      have "RuleScheduler.status (schedulerStep ?s1 e) = Syncing
          \<and> started (schedulerStep ?s1 e) = started ?s1 + 1
          \<and> finished (schedulerStep ?s1 e) = finished ?s1 + 1
          \<and> \<not> rerunRequested (schedulerStep ?s1 e)"
        by (rule completion_with_rerun) (use run live st fin in \<open>simp_all add: eq1\<close>)
      then show ?thesis
        unfolding s3 eq2 by (simp add: eq1)
    qed
    have "inFlight ?s3 = 1" if fin: "isCompletion e"
      using after [OF fin] inv3 by (simp add: schedulerInv_def)
    with rerun after show ?thesis
      by blast
  qed
  from bound exact syncing held coalesced show ?thesis
    by blast
qed

theorem single_flight_per_rule_witness:
  "running (runScheduler [EnableRule, Trigger, PauseRule, ResumeRule])
   \<and> RuleScheduler.status (runScheduler [EnableRule, Trigger, PauseRule, ResumeRule]) = Watching
   \<and> started (runScheduler pausedMidSync) = 1
   \<and> finished (runScheduler pausedMidSync) = 0
   \<and> inFlight (runScheduler pausedMidSync) = 1
   \<and> rerunRequested (runScheduler pausedMidSync)
   \<and> started (runScheduler (pausedMidSync @ [Trigger, SyncSucceeded])) = 2
   \<and> finished (runScheduler (pausedMidSync @ [Trigger, SyncSucceeded])) = 1
   \<and> inFlight (runScheduler (pausedMidSync @ [Trigger, SyncSucceeded])) = 1"
proof -
  let ?evs = "[EnableRule, Trigger, PauseRule, ResumeRule]"
  have run: "running (runScheduler ?evs)"
    and st: "RuleScheduler.status (runScheduler ?evs) = Watching"
    and counts: "started (runScheduler ?evs) = 1" "finished (runScheduler ?evs) = 0"
    by (simp_all add: runScheduler_def initialScheduler_def beginSync_def)
  have fin: "isCompletion SyncSucceeded"
    by simp
  have shape: "pausedMidSync = ?evs @ [Trigger]"
    "pausedMidSync @ [Trigger, SyncSucceeded] = ?evs @ [Trigger, Trigger, SyncSucceeded]"
    by (simp_all add: pausedMidSync_def)
  note all = single_flight_per_rule [of ?evs SyncSucceeded]
  note held = all [THEN conjunct2, THEN conjunct2, THEN conjunct2, THEN conjunct1, THEN mp, OF run]
  from run st have "running (runScheduler ?evs)
      \<and> (RuleScheduler.status (runScheduler ?evs) = Syncing
         \<or> RuleScheduler.status (runScheduler ?evs) = Watching)"
    by simp
  note coalesced = all [THEN conjunct2, THEN conjunct2, THEN conjunct2, THEN conjunct2,
      THEN mp, OF this]
  note rerun = coalesced [THEN conjunct2, THEN mp, OF fin]
  from held coalesced [THEN conjunct1] rerun run st counts show ?thesis
    unfolding shape by simp
qed

end
